theory Spec2Isabelle
  imports Main
begin

section \<open>Strings as Python uses them\<close>

text \<open>
  A Python \<open>str\<close> is modelled as a \<open>string\<close> (a list of 8-bit characters), which
  covers the ASCII request lines, paths and header text the server works with.
  The functions below are the \<open>str\<close> methods that \<open>server.py\<close> calls.
\<close>

definition startswith :: "string \<Rightarrow> string \<Rightarrow> bool" where
  "startswith s p = (take (length p) s = p)"

definition endswith :: "string \<Rightarrow> string \<Rightarrow> bool" where
  "endswith s p = (length p \<le> length s \<and> drop (length s - length p) s = p)"

text \<open>\<open>s.split(c)\<close> for a one-character separator: every occurrence of the
  separator cuts, so adjacent separators give empty parts and the result is never empty.\<close>

fun str_split :: "char \<Rightarrow> string \<Rightarrow> string list" where
  "str_split c [] = [[]]"
| "str_split c (x # xs) =
     (if x = c then [] # str_split c xs
      else (case str_split c xs of
              [] \<Rightarrow> [[x]]
            | w # ws \<Rightarrow> (x # w) # ws))"

text \<open>\<open>sep.join(parts)\<close>.\<close>

fun str_join :: "string \<Rightarrow> string list \<Rightarrow> string" where
  "str_join sep [] = []"
| "str_join sep [x] = x"
| "str_join sep (x # y # ys) = x @ sep @ str_join sep (y # ys)"

definition ascii_lowercase :: string where
  "ascii_lowercase = ''abcdefghijklmnopqrstuvwxyz''"

definition ascii_uppercase :: string where
  "ascii_uppercase = ''ABCDEFGHIJKLMNOPQRSTUVWXYZ''"

definition chr_upper :: "char \<Rightarrow> char" where
  "chr_upper c = (case map_of (zip ascii_lowercase ascii_uppercase) c of
                    None \<Rightarrow> c | Some u \<Rightarrow> u)"

definition chr_lower :: "char \<Rightarrow> char" where
  "chr_lower c = (case map_of (zip ascii_uppercase ascii_lowercase) c of
                    None \<Rightarrow> c | Some l \<Rightarrow> l)"

definition upper :: "string \<Rightarrow> string" where
  "upper s = map chr_upper s"

definition lower :: "string \<Rightarrow> string" where
  "lower s = map chr_lower s"

text \<open>\<open>s.rfind(c)\<close>: the index of the last occurrence of \<open>c\<close>, or \<open>-1\<close>.\<close>

fun rfind_from :: "char \<Rightarrow> string \<Rightarrow> nat \<Rightarrow> int \<Rightarrow> int" where
  "rfind_from c [] i found = found"
| "rfind_from c (x # xs) i found = rfind_from c xs (Suc i) (if x = c then int i else found)"

definition rfind :: "string \<Rightarrow> char \<Rightarrow> int" where
  "rfind s c = rfind_from c s 0 (- 1)"

text \<open>\<open>str(n)\<close> for a non-negative integer: its decimal digits.\<close>

definition digit_chr :: "nat \<Rightarrow> char" where
  "digit_chr d = (''0123456789'' ! d)"

function str_of_nat :: "nat \<Rightarrow> string" where
  "str_of_nat n = (if n < 10 then [digit_chr n] else str_of_nat (n div 10) @ [digit_chr (n mod 10)])"
  by pat_completeness auto
termination
  by (relation "measure (\<lambda>n. n)") auto

declare str_of_nat.simps [simp del]

section \<open>The path functions of \<open>os.path\<close> (POSIX flavour)\<close>

text \<open>
  \<open>server.py\<close> calls \<open>os.path.splitext\<close>, \<open>os.path.join\<close> and \<open>os.path.normpath\<close>.
  They are modelled after \<open>posixpath\<close>: separator \<open>/\<close>, extension separator \<open>.\<close>.
\<close>

definition sep :: string where
  "sep = ''/''"

text \<open>\<open>splitext\<close>: the extension starts at the last dot of the last path component,
  unless that component consists of leading dots only up to there.\<close>

definition splitext :: "string \<Rightarrow> string \<times> string" where
  "splitext p =
     (let sepIndex = rfind p (CHR ''/'');
          dotIndex = rfind p (CHR ''.'')
      in if dotIndex > sepIndex \<and>
            list_ex (\<lambda>ch. ch \<noteq> CHR ''.'')
              (take (nat dotIndex - nat (sepIndex + 1)) (drop (nat (sepIndex + 1)) p))
         then (take (nat dotIndex) p, drop (nat dotIndex) p)
         else (p, []))"

text \<open>\<open>join(a, b)\<close> with one component: an absolute \<open>b\<close> replaces \<open>a\<close>.\<close>

definition path_join :: "string \<Rightarrow> string \<Rightarrow> string" where
  "path_join a b =
     (if startswith b sep then b
      else if a = [] \<or> endswith a sep then a @ b
      else a @ sep @ b)"

text \<open>The loop of \<open>normpath\<close> over the components, with the stack \<open>new_comps\<close>.\<close>

fun norm_comps :: "nat \<Rightarrow> string list \<Rightarrow> string list \<Rightarrow> string list" where
  "norm_comps initial_slashes [] new_comps = new_comps"
| "norm_comps initial_slashes (seg # comps) new_comps =
     (if seg = [] \<or> seg = ''.'' then norm_comps initial_slashes comps new_comps
      else if seg \<noteq> ''..'' \<or> (initial_slashes = 0 \<and> new_comps = []) \<or>
              (new_comps \<noteq> [] \<and> last new_comps = ''..'')
        then norm_comps initial_slashes comps (new_comps @ [seg])
      else if new_comps \<noteq> [] then norm_comps initial_slashes comps (butlast new_comps)
      else norm_comps initial_slashes comps new_comps)"

definition initial_slashes_of :: "string \<Rightarrow> nat" where
  "initial_slashes_of path =
     (if startswith path sep then
        (if startswith path (sep @ sep) \<and> \<not> startswith path (sep @ sep @ sep) then 2 else 1)
      else 0)"

definition normpath :: "string \<Rightarrow> string" where
  "normpath path =
     (if path = [] then ''.''
      else
        let initial_slashes = initial_slashes_of path;
            comps = norm_comps initial_slashes (str_split (CHR ''/'') path) [];
            joined = concat (replicate initial_slashes sep) @ str_join sep comps
        in if joined = [] then ''.'' else joined)"

section \<open>The environment of one connection\<close>

text \<open>
  What the operating system answers for a path string: nothing there, a directory, or a
  regular file with its bytes; each with the read permission of the server process.
  The working directory of the process is part of this answer: a relative path such as
  \<open>error/400.html\<close> is looked up as the kernel would, from wherever the server was started.
\<close>

datatype node = File bool string | Dir bool

datatype exn =
    FileNotFoundError string
  | PermissionError string
  | IsADirectoryError string
  | BrokenPipeError
  | UnboundLocalError string
  | BadFileDescriptor

text \<open>The \<open>errno\<close> attribute of the \<open>OSError\<close>s among them (0 where there is none).\<close>

definition errno :: "exn \<Rightarrow> nat" where
  "errno x = (case x of
                FileNotFoundError _ \<Rightarrow> 2
              | PermissionError _ \<Rightarrow> 13
              | IsADirectoryError _ \<Rightarrow> 21
              | BrokenPipeError \<Rightarrow> 32
              | UnboundLocalError _ \<Rightarrow> 0
              | BadFileDescriptor \<Rightarrow> 9)"

record datetime =
  weekday :: nat
  day :: nat
  month :: nat
  year :: nat
  hour :: nat
  minute :: nat
  second :: nat

record env =
  document_root :: string
  protocol :: string
  timeout :: nat
  debug :: bool
  lookup :: "string \<Rightarrow> node option"
  guess_type :: "string \<Rightarrow> string option"
  unquote :: "string \<Rightarrow> string"
  utcnow :: datetime
  client_ip :: string
  thread_name :: string
  write_limit :: "nat option"
  accepted :: "nat \<Rightarrow> nat \<Rightarrow> nat"

text \<open>\<open>os.path.exists\<close>, \<open>os.access(path, os.R_OK)\<close>, \<open>os.path.getsize\<close> and
  \<open>open(path, 'rb')\<close> against that file system.\<close>

definition path_exists :: "env \<Rightarrow> string \<Rightarrow> bool" where
  "path_exists e p = (lookup e p \<noteq> None)"

definition access_R_OK :: "env \<Rightarrow> string \<Rightarrow> bool" where
  "access_R_OK e p =
     (case lookup e p of None \<Rightarrow> False | Some (File r _) \<Rightarrow> r | Some (Dir r) \<Rightarrow> r)"

definition getsize :: "env \<Rightarrow> string \<Rightarrow> exn + nat" where
  "getsize e p =
     (case lookup e p of
        None \<Rightarrow> Inl (FileNotFoundError p)
      | Some (Dir _) \<Rightarrow> Inr 4096
      | Some (File _ bytes) \<Rightarrow> Inr (length bytes))"

definition open_rb :: "env \<Rightarrow> string \<Rightarrow> exn + string" where
  "open_rb e p =
     (case lookup e p of
        None \<Rightarrow> Inl (FileNotFoundError p)
      | Some (Dir _) \<Rightarrow> Inl (IsADirectoryError p)
      | Some (File r bytes) \<Rightarrow> if r then Inr bytes else Inl (PermissionError p))"

section \<open>\<open>server.py\<close>: the resolver and the extension gate\<close>

definition DEFAULT_FILE :: string where
  "DEFAULT_FILE = ''index.html''"

definition BAD_REQUEST :: string where
  "BAD_REQUEST = ''error/400.html''"

definition FORBIDDEN :: string where
  "FORBIDDEN = ''error/403.html''"

definition FILE_NOT_FOUND :: string where
  "FILE_NOT_FOUND = ''error/404.html''"

definition METHOD_NOT_SUPPORTED :: string where
  "METHOD_NOT_SUPPORTED = ''error/501.html''"

definition supported_types :: "string list" where
  "supported_types = [''.pdf'', ''.jpeg'', ''.jpg'', ''.png'', ''.txt'', ''.gif'', ''.html'',
                      ''.mp4'', ''.json'', '''', ''.js'', ''.css'']"

definition is_file_supported :: "string \<Rightarrow> bool" where
  "is_file_supported filepath =
     (let file_extension = snd (splitext filepath);
          file_type = lower file_extension
      in file_type \<in> set supported_types)"

definition get_file_path :: "env \<Rightarrow> string \<Rightarrow> string option" where
  "get_file_path e file_name =
     (let file_name' = (if file_name = ''/'' then DEFAULT_FILE else drop 1 file_name);
          file_path = normpath (path_join (document_root e) file_name')
      in if path_exists e file_path then Some file_path else None)"

section \<open>What a connection does, as a trace\<close>

text \<open>
  The effects of handling one connection, in the order they happen: lines printed to
  standard output (\<open>Print_error p x\<close> is \<open>print(f"p{x}")\<close> for a caught exception \<open>x\<close>),
  buffers handed to \<open>out_file.write\<close> (one event per call), files opened and closed,
  the socket timeout, the sleep, and the closing of the socket.
\<close>

datatype event =
    Print string
  | Print_error string exn
  | Write string
  | FileOpen string
  | FileClose string
  | Settimeout nat
  | Sleep nat
  | ConnClose

type_synonym trace = "event list"

fun writes :: "trace \<Rightarrow> string list" where
  "writes [] = []"
| "writes (Write b # tr) = b # writes tr"
| "writes (_ # tr) = writes tr"

text \<open>
  The socket. \<open>out_file\<close> is \<open>makefile('wb', buffering=0)\<close>, a raw file whose
  \<open>write(b)\<close> is one \<open>send\<close> on the socket: it raises when the connection is broken,
  and otherwise returns how many bytes of \<open>b\<close> the socket took, which may be fewer than
  \<open>len(b)\<close> (a short write), or none. \<open>write_limit\<close> is the number of writes before the
  socket breaks (\<open>None\<close>: it never breaks); \<open>accepted e i n\<close> is how many bytes the socket
  takes of the \<open>n\<close> bytes handed to write number \<open>i\<close> of the connection, counted from 0.
\<close>

definition peer_accepts :: "env \<Rightarrow> trace \<Rightarrow> bool" where
  "peer_accepts e tr =
     (case write_limit e of None \<Rightarrow> True | Some k \<Rightarrow> length (writes tr) < k)"

definition sock_send :: "env \<Rightarrow> string \<Rightarrow> trace \<Rightarrow> exn + nat" where
  "sock_send e b tr =
     (if peer_accepts e tr
      then Inr (min (length b) (accepted e (length (writes tr)) (length b)))
      else Inl BrokenPipeError)"

text \<open>The statement \<open>out_file.write(b)\<close> as \<open>server.py\<close> has it: the number that
  \<open>write\<close> returns is dropped, so nothing is sent again after a short write. The trace
  records the call with the buffer handed over.\<close>

definition out_write :: "env \<Rightarrow> string \<Rightarrow> trace \<Rightarrow> exn + trace" where
  "out_write e b tr =
     (case sock_send e b tr of
        Inl x \<Rightarrow> Inl x
      | Inr n \<Rightarrow> Inr (tr @ [Write b]))"

text \<open>The bytes that reached the socket: of the buffer of write number \<open>i\<close>, the part the
  socket took.\<close>

fun sent_from :: "env \<Rightarrow> nat \<Rightarrow> string list \<Rightarrow> string" where
  "sent_from e i [] = []"
| "sent_from e i (b # bs) = take (accepted e i (length b)) b @ sent_from e (Suc i) bs"

definition transmitted :: "env \<Rightarrow> trace \<Rightarrow> string" where
  "transmitted e tr = sent_from e 0 (writes tr)"

section \<open>\<open>HttpServer.serve_file\<close>\<close>

definition CRLF :: string where
  "CRLF = [CHR 0x0D, CHR 0x0A]"

definition day_names :: "string list" where
  "day_names = [''Mon'', ''Tue'', ''Wed'', ''Thu'', ''Fri'', ''Sat'', ''Sun'']"

definition month_names :: "string list" where
  "month_names = [''Jan'', ''Feb'', ''Mar'', ''Apr'', ''May'', ''Jun'',
                  ''Jul'', ''Aug'', ''Sep'', ''Oct'', ''Nov'', ''Dec'']"

definition two_digits :: "nat \<Rightarrow> string" where
  "two_digits n = (if n < 10 then ''0'' @ str_of_nat n else str_of_nat n)"

text \<open>\<open>datetime.utcnow().strftime("%a, %d %b %Y %H:%M:%S GMT")\<close>.\<close>

definition get_current_date :: "env \<Rightarrow> string" where
  "get_current_date e =
     (let d = utcnow e
      in day_names ! weekday d @ '', '' @ two_digits (day d) @ '' '' @
         month_names ! (month d - 1) @ '' '' @ str_of_nat (year d) @ '' '' @
         two_digits (hour d) @ '':'' @ two_digits (minute d) @ '':'' @
         two_digits (second d) @ '' GMT'')"

text \<open>\<open>"{}".format(content_type)\<close>: \<open>guess_type\<close> gives \<open>None\<close> for an unknown extension,
  which formats as the text \<open>None\<close>.\<close>

definition format_content_type :: "string option \<Rightarrow> string" where
  "format_content_type t = (case t of None \<Rightarrow> ''None'' | Some s \<Rightarrow> s)"

definition headers :: "env \<Rightarrow> string \<Rightarrow> string \<Rightarrow> nat \<Rightarrow> string \<Rightarrow> string list" where
  "headers e http_version responsecode file_size file_path =
     [http_version @ '' '' @ responsecode,
      ''Server: Python HTTP Server'',
      ''Date: '' @ get_current_date e,
      ''Content-type: '' @ format_content_type (guess_type e file_path),
      ''Content-length: '' @ str_of_nat file_size,
      [],
      []]"

text \<open>The \<open>while chunk:\<close> loop. \<open>remaining\<close> is what the file object has not yet
  handed out; \<open>read(4096)\<close> takes up to 4096 bytes of it.\<close>

function stream_chunks :: "env \<Rightarrow> string \<Rightarrow> trace \<Rightarrow> trace \<times> exn option" where
  "stream_chunks e remaining tr =
     (if take 4096 remaining = [] then (tr, None)
      else (case out_write e (take 4096 remaining) tr of
              Inl x \<Rightarrow> (tr, Some x)
            | Inr tr' \<Rightarrow> stream_chunks e (drop 4096 remaining) tr'))"
  by pat_completeness auto
termination
  by (relation "measure (\<lambda>(e, remaining, tr). length remaining)") auto

declare stream_chunks.simps [simp del]

text \<open>The body of the \<open>try\<close> after the file has been opened: it ends normally or with the
  exception that left it.\<close>

definition serve_opened ::
  "env \<Rightarrow> string \<Rightarrow> string \<Rightarrow> string \<Rightarrow> string \<Rightarrow> trace \<Rightarrow> trace \<times> exn option" where
  "serve_opened e file_path bytes responsecode http_version tr =
     (case getsize e file_path of
        Inl x \<Rightarrow> (tr, Some x)
      | Inr file_size \<Rightarrow>
          (case out_write e (str_join CRLF (headers e http_version responsecode file_size file_path)) tr of
             Inl x \<Rightarrow> (tr, Some x)
           | Inr tr1 \<Rightarrow>
               stream_chunks e bytes
                 (if http_version = ''HTTP/1.0'' then tr1 @ [Settimeout (timeout e)] else tr1)))"

text \<open>
  \<open>serve_file\<close>: \<open>try\<close> / \<open>except Exception\<close> / \<open>finally: error_file.close()\<close>.
  When \<open>open\<close> raises, \<open>error_file\<close> was never bound, so after the handler has printed,
  the \<open>finally\<close> clause itself raises \<open>UnboundLocalError\<close>, which leaves the function.
\<close>

definition serve_file ::
  "env \<Rightarrow> string \<Rightarrow> string \<Rightarrow> string \<Rightarrow> trace \<Rightarrow> trace \<times> exn option" where
  "serve_file e file_path responsecode http_version tr =
     (case (if responsecode \<noteq> ''200 OK'' then open_rb e file_path else open_rb e file_path) of
        Inl x \<Rightarrow>
          (tr @ [Print_error ''Error serving file: '' x], Some (UnboundLocalError ''error_file''))
      | Inr bytes \<Rightarrow>
          (case serve_opened e file_path bytes responsecode http_version (tr @ [FileOpen file_path]) of
             (tr', None) \<Rightarrow> (tr' @ [FileClose file_path], None)
           | (tr', Some x) \<Rightarrow>
               (tr' @ [Print_error ''Error serving file: '' x, FileClose file_path], None)))"

section \<open>The error responses\<close>

definition bad_request :: "env \<Rightarrow> string \<Rightarrow> trace \<Rightarrow> trace \<times> exn option" where
  "bad_request e visited_url tr =
     serve_file e BAD_REQUEST ''400 BadRequest'' ''HTTP/1.1''
       (tr @ [Print (''HTTP 400 Error: '' @ visited_url @ '' Bad Request!'')])"

definition file_not_found :: "env \<Rightarrow> string \<Rightarrow> trace \<Rightarrow> trace \<times> exn option" where
  "file_not_found e file_name tr =
     serve_file e FILE_NOT_FOUND ''404 FileNotFound'' ''HTTP/1.1''
       (tr @ [Print (''HTTP 404 Error: '' @ file_name @ '' cannot be found!'')])"

definition file_forbidden :: "env \<Rightarrow> string \<Rightarrow> trace \<Rightarrow> trace \<times> exn option" where
  "file_forbidden e file_name tr =
     serve_file e FORBIDDEN ''403 Forbidden'' ''HTTP/1.1''
       (tr @ [Print (''HTTP 403 Error: '' @ file_name @ '' Forbidden (No permission)'')])"

definition method_not_supported :: "env \<Rightarrow> string \<Rightarrow> trace \<Rightarrow> trace \<times> exn option" where
  "method_not_supported e http_method tr =
     serve_file e METHOD_NOT_SUPPORTED ''501 NotImplemented'' ''HTTP/1.1''
       (tr @ [Print (''HTTP 501 Error: '' @ http_method @ '' HTTP method not implemented!'')])"

section \<open>\<open>HttpServer.run\<close> and \<open>HttpServer.close_connection\<close>\<close>

text \<open>The statements inside the \<open>with\<close> block of \<open>run\<close>, from the line that
  \<open>in_file.readline()\<close> returned. The result says whether an exception left the block.\<close>

definition handle_request :: "env \<Rightarrow> string \<Rightarrow> trace \<times> exn option" where
  "handle_request e visited_url =
     (let request_parts = str_split (CHR '' '') visited_url
      in if length request_parts < 2 then bad_request e visited_url [Print ''Invalid request'']
         else
           let http_method = request_parts ! 0;
               file_name = unquote e (request_parts ! 1);
               tr0 = (if debug e then [Print (''file_name '' @ file_name)] else [])
           in if upper http_method \<noteq> ''GET'' \<or> \<not> is_file_supported file_name
              then bad_request e http_method tr0
              else
                (case get_file_path e file_name of
                   None \<Rightarrow> file_not_found e file_name tr0
                 | Some file_path \<Rightarrow>
                     if \<not> access_R_OK e file_path then file_forbidden e file_name tr0
                     else
                       let http_version = ''HTTP/'' @ protocol e;
                           tr1 = (if debug e
                                  then tr0 @ [Print (''Current thread name is '' @ thread_name e @
                                                     '' and file opened '' @ file_path)]
                                  else tr0)
                       in (case serve_file e file_path ''200 OK'' http_version tr1 of
                             (tr2, Some x) \<Rightarrow> (tr2, Some x)
                           | (tr2, None) \<Rightarrow>
                               if http_version = ''HTTP/1.0''
                               then (tr2 @ [Sleep 2, Print ''Connection closed for HTTP/1.0''], None)
                               else (tr2, None))))"

text \<open>\<open>self.connect.getpeername()\<close> raises \<open>OSError\<close> with errno 9 on a closed socket.\<close>

definition getpeername :: "env \<Rightarrow> trace \<Rightarrow> exn + string" where
  "getpeername e tr = (if ConnClose \<in> set tr then Inl BadFileDescriptor else Inr (client_ip e))"

text \<open>\<open>close_connection\<close>, for a handler that has a socket; \<open>clients\<close> is the class-wide
  set \<open>connected_clients\<close>.\<close>

definition close_connection :: "env \<Rightarrow> string set \<Rightarrow> trace \<Rightarrow> trace \<times> string set" where
  "close_connection e clients tr =
     (case getpeername e tr of
        Inl x \<Rightarrow>
          if errno x \<noteq> 9 then (tr @ [Print_error ''Error closing connection: '' x], clients)
          else (tr, clients)
      | Inr ip \<Rightarrow>
          if ip \<in> clients
          then (tr @ [ConnClose, Print (''Connection closed: '' @ ip)], clients - {ip})
          else (tr @ [ConnClose], clients))"

text \<open>
  \<open>run\<close>: the \<open>with\<close> block closes the two socket files and the socket when it is left,
  by \<open>return\<close> or by an exception; \<open>except Exception\<close> prints what escaped; \<open>finally\<close>
  calls \<open>close_connection\<close>. Nothing is raised to the thread.
\<close>

definition run :: "env \<Rightarrow> string set \<Rightarrow> string \<Rightarrow> trace \<times> string set" where
  "run e clients visited_url =
     (case handle_request e visited_url of
        (tr, None) \<Rightarrow> close_connection e clients (tr @ [ConnClose])
      | (tr, Some x) \<Rightarrow>
          close_connection e clients (tr @ [ConnClose, Print_error ''Server error: '' x]))"

section \<open>Reading a trace\<close>

fun prints :: "trace \<Rightarrow> string list" where
  "prints [] = []"
| "prints (Print s # tr) = s # prints tr"
| "prints (_ # tr) = prints tr"

text \<open>
  Each error method (\<open>bad_request\<close>, \<open>file_not_found\<close>, \<open>file_forbidden\<close>,
  \<open>method_not_supported\<close>) prints its own line \<open>HTTP <code> Error: ...\<close> before anything
  else, and the path that serves the requested file prints no such line. So the outcome of
  a connection can be read off what was printed.
\<close>

datatype StatusOutcome = OK | BadRequest | Forbidden | NotFound | MethodNotSupported

definition announced :: "string \<Rightarrow> trace \<Rightarrow> bool" where
  "announced code tr = list_ex (\<lambda>s. startswith s (''HTTP '' @ code @ '' Error: '')) (prints tr)"

definition outcome :: "trace \<Rightarrow> StatusOutcome" where
  "outcome tr =
     (if announced ''400'' tr then BadRequest
      else if announced ''404'' tr then NotFound
      else if announced ''403'' tr then Forbidden
      else if announced ''501'' tr then MethodNotSupported
      else OK)"

text \<open>The status line and the asset that the method of each outcome passes to
  \<open>serve_file\<close>.\<close>

definition status_line :: "StatusOutcome \<Rightarrow> string" where
  "status_line out = (case out of
       OK \<Rightarrow> ''200 OK''
     | BadRequest \<Rightarrow> ''400 BadRequest''
     | Forbidden \<Rightarrow> ''403 Forbidden''
     | NotFound \<Rightarrow> ''404 FileNotFound''
     | MethodNotSupported \<Rightarrow> ''501 NotImplemented'')"

definition error_asset :: "StatusOutcome \<Rightarrow> string" where
  "error_asset out = (case out of
       OK \<Rightarrow> []
     | BadRequest \<Rightarrow> BAD_REQUEST
     | Forbidden \<Rightarrow> FORBIDDEN
     | NotFound \<Rightarrow> FILE_NOT_FOUND
     | MethodNotSupported \<Rightarrow> METHOD_NOT_SUPPORTED)"

text \<open>The events \<open>serve_file\<close> can add to a trace when called with a given version
  string.\<close>

definition writer_event :: "env \<Rightarrow> string \<Rightarrow> event \<Rightarrow> bool" where
  "writer_event e http_version ev =
     (case ev of
        Write _ \<Rightarrow> True
      | FileOpen _ \<Rightarrow> True
      | FileClose _ \<Rightarrow> True
      | Print_error msg _ \<Rightarrow> msg = ''Error serving file: ''
      | Settimeout n \<Rightarrow> n = timeout e \<and> http_version = ''HTTP/1.0''
      | _ \<Rightarrow> False)"

text \<open>The first two parts of the request line: what \<open>run\<close> reads as method and target.\<close>

definition parsed_request :: "string \<Rightarrow> string list" where
  "parsed_request visited_url = take 2 (str_split (CHR '' '') visited_url)"

section \<open>The specification's wording, for comparison\<close>

text \<open>"Strip exactly one leading path separator": a separator is removed when the target
  starts with one.\<close>

definition strip_leading_separator :: "string \<Rightarrow> string" where
  "strip_leading_separator t = (if startswith t sep then drop 1 t else t)"

definition resolve_as_specified :: "env \<Rightarrow> string \<Rightarrow> string option" where
  "resolve_as_specified e rawTarget =
     (let name = (if rawTarget = ''/'' then ''index.html'' else strip_leading_separator rawTarget);
          candidate = normpath (path_join (document_root e) name)
      in if path_exists e candidate then Some candidate else None)"

text \<open>A path lies under a root when it is the (normalized) root or continues it after a
  separator.\<close>

definition under_root :: "string \<Rightarrow> string \<Rightarrow> bool" where
  "under_root root p =
     (let r = normpath root
      in p = r \<or> startswith p (if endswith r sep then r else r @ sep))"

text \<open>"Whitespace-separated tokens": the maximal runs of non-whitespace characters.\<close>

definition is_space :: "char \<Rightarrow> bool" where
  "is_space c = (c \<in> set [CHR '' '', CHR 0x09, CHR 0x0A, CHR 0x0B, CHR 0x0C, CHR 0x0D])"

fun tokens_from :: "string \<Rightarrow> string \<Rightarrow> string list" where
  "tokens_from cur [] = (if cur = [] then [] else [cur])"
| "tokens_from cur (c # cs) =
     (if is_space c then (if cur = [] then tokens_from [] cs else cur # tokens_from [] cs)
      else tokens_from (cur @ [c]) cs)"

definition whitespace_tokens :: "string \<Rightarrow> string list" where
  "whitespace_tokens s = tokens_from [] s"

text \<open>The shape of an RFC 1123 date: \<open>Www, DD Mon YYYY HH:MM:SS GMT\<close>.\<close>

definition is_digit :: "char \<Rightarrow> bool" where
  "is_digit c = (c \<in> set ''0123456789'')"

definition is_alpha :: "char \<Rightarrow> bool" where
  "is_alpha c = (c \<in> set (ascii_lowercase @ ascii_uppercase))"

definition rfc1123_shape :: "string \<Rightarrow> bool" where
  "rfc1123_shape s =
     (length s = 29 \<and>
      list_all is_alpha (take 3 s) \<and> take 2 (drop 3 s) = '', '' \<and>
      list_all is_digit (take 2 (drop 5 s)) \<and> take 1 (drop 7 s) = '' '' \<and>
      list_all is_alpha (take 3 (drop 8 s)) \<and> take 1 (drop 11 s) = '' '' \<and>
      list_all is_digit (take 4 (drop 12 s)) \<and> take 1 (drop 16 s) = '' '' \<and>
      list_all is_digit (take 2 (drop 17 s)) \<and> take 1 (drop 19 s) = '':'' \<and>
      list_all is_digit (take 2 (drop 20 s)) \<and> take 1 (drop 22 s) = '':'' \<and>
      list_all is_digit (take 2 (drop 23 s)) \<and> drop 25 s = '' GMT'')"

text \<open>What a \<open>datetime\<close> object of the present era guarantees about its fields
  (\<open>weekday\<close> counts from Monday = 0).\<close>

definition valid_datetime :: "datetime \<Rightarrow> bool" where
  "valid_datetime d =
     (weekday d < 7 \<and> 1 \<le> day d \<and> day d \<le> 31 \<and> 1 \<le> month d \<and> month d \<le> 12 \<and>
      1000 \<le> year d \<and> year d \<le> 9999 \<and> hour d < 24 \<and> minute d < 60 \<and> second d < 60)"

text \<open>The value of a string of decimal digits.\<close>

definition digit_val :: "char \<Rightarrow> nat" where
  "digit_val c = of_char c - 48"

definition nat_of_digits :: "string \<Rightarrow> nat" where
  "nat_of_digits s = foldl (\<lambda>acc c. 10 * acc + digit_val c) 0 s"

section \<open>A small site, for concrete runs\<close>

definition example_files :: "(string \<times> node) list" where
  "example_files =
     [(''/srv/www'', Dir True),
      (''/srv/www/a.txt'', File True ''hello''),
      (''/srv/www/secret.txt'', File False ''classified''),
      (''/srv/www/index.html'', File True ''<html></html>''),
      (''/srv/www/big.txt'', File True (replicate 5000 (CHR ''x''))),
      (''/srv/www/error/400.html'', File True ''bad request under the root''),
      (''/etc/passwd'', File True ''root:x:0:0''),
      (''error/404.html'', File True ''not found'')]"

definition example_types :: "string \<Rightarrow> string option" where
  "example_types p =
     map_of [(''.txt'', ''text/plain''), (''.html'', ''text/html'')] (lower (snd (splitext p)))"

definition example_env :: env where
  "example_env =
     \<lparr>document_root = ''/srv/www'', protocol = ''1.0'', timeout = 10, debug = False,
      lookup = map_of example_files, guess_type = example_types,
      unquote = (\<lambda>s. s),
      utcnow = \<lparr>weekday = 2, day = 4, month = 11, year = 2026,
                hour = 9, minute = 5, second = 0\<rparr>,
      client_ip = ''10.0.0.7'', thread_name = ''Thread-1'', write_limit = None,
      accepted = (\<lambda>i n. n)\<rparr>"

text \<open>The same site behind a slow peer: of the first body chunk the socket takes only
  1000 bytes.\<close>

definition slow_peer_env :: env where
  "slow_peer_env = example_env\<lparr>accepted := (\<lambda>i n. if i = 1 then 1000 else n)\<rparr>"

definition LF :: string where
  "LF = [CHR 0x0A]"

section \<open>Evaluating the definitions\<close>

lemmas path_defs = normpath_def initial_slashes_of_def path_join_def startswith_def
  endswith_def sep_def

lemmas example_defs = example_env_def example_files_def example_types_def

lemma example_traversal:
  "get_file_path example_env ''/../../etc/passwd'' = Some ''/etc/passwd''"
  by (simp add: get_file_path_def path_exists_def path_defs example_defs DEFAULT_FILE_def)

lemma serve_file_open_failed:
  "open_rb e file_path = Inl x \<Longrightarrow>
   serve_file e file_path responsecode http_version tr =
     (tr @ [Print_error ''Error serving file: '' x], Some (UnboundLocalError ''error_file''))"
  by (simp add: serve_file_def)

section \<open>Path traversal\<close>

text \<open>
  Claim C3. There is a raw target with \<open>..\<close> segments for which the resolver returns an
  existing path outside the document root: normalization does not keep the result under
  the root. With the root \<open>/srv/www\<close>, the target \<open>/../../etc/passwd\<close> resolves to
  \<open>/etc/passwd\<close>.
\<close>

theorem C3_traversal_leaves_root:
  "\<exists>e t p. ''..'' \<in> set (str_split (CHR ''/'') t) \<and> get_file_path e t = Some p \<and>
     path_exists e p \<and> \<not> under_root (document_root e) p"
proof (intro exI conjI)
  show "''..'' \<in> set (str_split (CHR ''/'') ''/../../etc/passwd'')" by simp
  show "get_file_path example_env ''/../../etc/passwd'' = Some ''/etc/passwd''"
    by (rule example_traversal)
  show "path_exists example_env ''/etc/passwd''"
    by (simp add: path_exists_def example_defs)
  show "\<not> under_root (document_root example_env) ''/etc/passwd''"
    by (simp add: under_root_def path_defs example_defs)
qed

section \<open>Failure to open the file\<close>

text \<open>
  Claim C6. The claim says that when opening the path fails, \<open>serve_file\<close> logs and returns
  without writing and without raising. The code logs and writes nothing, but it does not
  return: \<open>finally: error_file.close()\<close> reads a variable that was never bound, so
  \<open>serve_file\<close> ends by raising \<open>UnboundLocalError\<close>.
\<close>

theorem C6_open_failure_raises:
  assumes "open_rb e file_path = Inl x"
  shows "serve_file e file_path responsecode http_version tr =
           (tr @ [Print_error ''Error serving file: '' x], Some (UnboundLocalError ''error_file''))"
  using assms by (rule serve_file_open_failed)

theorem C6_open_failure_raises_witness:
  "open_rb example_env BAD_REQUEST = Inl (FileNotFoundError ''error/400.html'') \<and>
   bad_request example_env ''POST'' [] =
     ([Print ''HTTP 400 Error: POST Bad Request!'',
       Print_error ''Error serving file: '' (FileNotFoundError ''error/400.html'')],
      Some (UnboundLocalError ''error_file''))"
proof -
  have h: "open_rb example_env BAD_REQUEST = Inl (FileNotFoundError ''error/400.html'')"
    by (simp add: open_rb_def BAD_REQUEST_def example_defs)
  show ?thesis
    using h C6_open_failure_raises [OF h, of "''400 BadRequest''" "''HTTP/1.1''"
        "[Print ''HTTP 400 Error: POST Bad Request!'']"]
    by (simp add: bad_request_def)
qed


section \<open>Traces of the writer\<close>

lemma prints_append: "prints (tr @ tr') = prints tr @ prints tr'"
  by (induction tr rule: prints.induct) simp_all

lemma writes_append: "writes (tr @ tr') = writes tr @ writes tr'"
  by (induction tr rule: writes.induct) simp_all

lemma prints_map_Write: "prints (map Write body) = []"
  by (induction body) simp_all

lemma writes_map_Write: "writes (map Write body) = body"
  by (induction body) simp_all

lemma out_write_cases:
  "out_write e b tr = Inr tr' \<Longrightarrow> tr' = tr @ [Write b]"
  by (auto simp: out_write_def split: sum.splits)

lemma out_write_unlimited: "write_limit e = None \<Longrightarrow> out_write e b tr = Inr (tr @ [Write b])"
  by (simp add: out_write_def sock_send_def peer_accepts_def)

lemma stream_chunks_adds: "\<exists>body. fst (stream_chunks e d tr) = tr @ map Write body"
proof (induction e d tr rule: stream_chunks.induct)
  case (1 e remaining tr)
  show ?case
  proof (cases "take 4096 remaining = []")
    case True
    then have "fst (stream_chunks e remaining tr) = tr @ map Write []"
      by (simp add: stream_chunks.simps)
    then show ?thesis by blast
  next
    case False
    show ?thesis
    proof (cases "out_write e (take 4096 remaining) tr")
      case (Inl x)
      with False have "fst (stream_chunks e remaining tr) = tr @ map Write []"
        by (simp add: stream_chunks.simps [of e remaining tr])
      then show ?thesis by blast
    next
      case (Inr tr')
      then have tr': "tr' = tr @ [Write (take 4096 remaining)]"
        by (rule out_write_cases)
      from "1.IH" [OF False Inr] obtain body
        where "fst (stream_chunks e (drop 4096 remaining) tr') = tr' @ map Write body"
        by blast
      with False Inr tr'
      have "fst (stream_chunks e remaining tr) = tr @ map Write (take 4096 remaining # body)"
        by (simp add: stream_chunks.simps [of e remaining tr])
      then show ?thesis by blast
    qed
  qed
qed

lemma stream_chunks_unlimited:
  "write_limit e = None \<Longrightarrow>
   \<exists>body. stream_chunks e d tr = (tr @ map Write body, None) \<and> concat body = d \<and>
           (\<forall>c\<in>set body. c \<noteq> [] \<and> length c \<le> 4096) \<and>
           (\<forall>c\<in>set (butlast body). length c = 4096)"
proof (induction e d tr rule: stream_chunks.induct)
  case (1 e remaining tr)
  note unlimited = \<open>write_limit e = None\<close>
  show ?case
  proof (cases "take 4096 remaining = []")
    case True
    then have "stream_chunks e remaining tr = (tr @ map Write [], None)" and "concat [] = remaining"
      by (simp_all add: stream_chunks.simps)
    then show ?thesis by fastforce
  next
    case False
    let ?chunk = "take 4096 remaining"
    let ?tr' = "tr @ [Write ?chunk]"
    have w: "out_write e ?chunk tr = Inr ?tr'"
      using unlimited by (rule out_write_unlimited)
    from "1.IH" [OF False w unlimited] obtain body where
      run: "stream_chunks e (drop 4096 remaining) ?tr' = (?tr' @ map Write body, None)" and
      cat: "concat body = drop 4096 remaining" and
      each: "\<forall>c\<in>set body. c \<noteq> [] \<and> length c \<le> 4096" and
      full: "\<forall>c\<in>set (butlast body). length c = 4096"
      by blast
    have "stream_chunks e remaining tr = (tr @ map Write (?chunk # body), None)"
      using False w run by (simp add: stream_chunks.simps [of e remaining tr])
    moreover have "concat (?chunk # body) = remaining"
      using cat by simp
    moreover have "\<forall>c\<in>set (?chunk # body). c \<noteq> [] \<and> length c \<le> 4096"
      using False each by simp
    moreover have "\<forall>c\<in>set (butlast (?chunk # body)). length c = 4096"
    proof (cases "body = []")
      case True
      then show ?thesis by simp
    next
      case nonempty: False
      then obtain c where "c \<in> set body" by (cases body) auto
      with each have "concat body \<noteq> []" by auto
      with cat have "4096 < length remaining" by simp
      then have "length ?chunk = 4096" by simp
      with full nonempty show ?thesis by simp
    qed
    ultimately show ?thesis by blast
  qed
qed

section \<open>Decimal numbers and the date line\<close>

lemma digit_cases: "d < 10 \<Longrightarrow> d \<in> {0, 1, 2, 3, 4, 5, 6, 7, 8, 9::nat}"
  by auto

lemma digit_chr_is_digit: "d < 10 \<Longrightarrow> is_digit (digit_chr d)"
  using digit_cases [of d] by (auto simp: is_digit_def digit_chr_def)

lemma digit_val_digit_chr: "d < 10 \<Longrightarrow> digit_val (digit_chr d) = d"
  using digit_cases [of d] by (auto simp: digit_val_def digit_chr_def)

lemma str_of_nat_digits: "list_all is_digit (str_of_nat n)"
proof (induction n rule: str_of_nat.induct)
  case (1 n)
  show ?case
  proof (cases "n < 10")
    case True
    then show ?thesis by (simp add: str_of_nat.simps [of n] digit_chr_is_digit)
  next
    case False
    with "1.IH" show ?thesis
      by (simp add: str_of_nat.simps [of n] digit_chr_is_digit)
  qed
qed

lemma nat_of_digits_snoc: "nat_of_digits (s @ [c]) = 10 * nat_of_digits s + digit_val c"
  by (simp add: nat_of_digits_def)

lemma nat_of_digits_str_of_nat: "nat_of_digits (str_of_nat n) = n"
proof (induction n rule: str_of_nat.induct)
  case (1 n)
  show ?case
  proof (cases "n < 10")
    case True
    then show ?thesis
      using nat_of_digits_snoc [of "[]" "digit_chr n"]
      by (simp add: str_of_nat.simps [of n] digit_val_digit_chr nat_of_digits_def)
  next
    case False
    with "1.IH" show ?thesis
      by (simp add: str_of_nat.simps [of n] nat_of_digits_snoc digit_val_digit_chr)
  qed
qed

lemma str_of_nat_one: "n < 10 \<Longrightarrow> str_of_nat n = [digit_chr n]"
  by (simp add: str_of_nat.simps [of n])

lemma str_of_nat_two: "10 \<le> n \<Longrightarrow> n < 100 \<Longrightarrow> str_of_nat n = [digit_chr (n div 10), digit_chr (n mod 10)]"
  by (simp add: str_of_nat.simps [of n] str_of_nat_one)

lemma zero_is_digit: "is_digit (CHR ''0'')"
  by (simp add: is_digit_def)

lemma two_digits_shape: "n < 100 \<Longrightarrow> length (two_digits n) = 2 \<and> list_all is_digit (two_digits n)"
  by (cases "n < 10")
     (simp_all add: two_digits_def str_of_nat_one str_of_nat_two digit_chr_is_digit zero_is_digit)

lemma str_of_nat_length_step: "10 \<le> n \<Longrightarrow> length (str_of_nat n) = Suc (length (str_of_nat (n div 10)))"
  by (simp add: str_of_nat.simps [of n])

lemma year_length: "1000 \<le> n \<Longrightarrow> n \<le> 9999 \<Longrightarrow> length (str_of_nat n) = 4"
proof -
  assume a: "1000 \<le> n" "n \<le> 9999"
  then have "10 \<le> n" "10 \<le> n div 10" "10 \<le> n div 10 div 10" "n div 10 div 10 div 10 < 10"
    by auto
  then show ?thesis
    by (simp add: str_of_nat_length_step str_of_nat_one)
qed

lemma day_name_shape: "w < 7 \<Longrightarrow> length (day_names ! w) = 3 \<and> list_all is_alpha (day_names ! w)"
proof -
  assume "w < 7"
  then have "w \<in> {0, 1, 2, 3, 4, 5, 6}" by auto
  then show ?thesis
    by (auto simp: day_names_def is_alpha_def ascii_lowercase_def ascii_uppercase_def)
qed

lemma month_name_shape:
  "Suc 0 \<le> m \<Longrightarrow> m \<le> 12 \<Longrightarrow>
   length (month_names ! (m - Suc 0)) = 3 \<and> list_all is_alpha (month_names ! (m - Suc 0))"
proof -
  assume "Suc 0 \<le> m" "m \<le> 12"
  then have "m = 1 \<or> m = 2 \<or> m = 3 \<or> m = 4 \<or> m = 5 \<or> m = 6 \<or> m = 7 \<or> m = 8 \<or> m = 9 \<or>
             m = 10 \<or> m = 11 \<or> m = 12"
    by arith
  then show ?thesis
    by (elim disjE)
       (simp_all add: month_names_def is_alpha_def ascii_lowercase_def ascii_uppercase_def)
qed

lemma rfc1123_compose:
  assumes "length w = 3" "list_all is_alpha w" "length dd = 2" "list_all is_digit dd"
    "length mon = 3" "list_all is_alpha mon" "length yyyy = 4" "list_all is_digit yyyy"
    "length hh = 2" "list_all is_digit hh" "length mm = 2" "list_all is_digit mm"
    "length ss = 2" "list_all is_digit ss"
  shows "rfc1123_shape (w @ '', '' @ dd @ '' '' @ mon @ '' '' @ yyyy @ '' '' @ hh @ '':'' @ mm @ '':'' @ ss @ '' GMT'')"
  using assms by (simp add: rfc1123_shape_def)

lemma get_current_date_shape:
  assumes "valid_datetime (utcnow e)"
  shows "rfc1123_shape (get_current_date e)"
proof -
  let ?d = "utcnow e"
  from assms have v: "weekday ?d < 7" "1 \<le> day ?d" "day ?d < 100" "1 \<le> month ?d" "month ?d \<le> 12"
    "1000 \<le> year ?d" "year ?d \<le> 9999" "hour ?d < 100" "minute ?d < 100" "second ?d < 100"
    by (simp_all add: valid_datetime_def)
  have mon: "length (month_names ! (month ?d - Suc 0)) = 3 \<and>
             list_all is_alpha (month_names ! (month ?d - Suc 0))"
    using v month_name_shape [of "month ?d"] by simp
  show ?thesis
    unfolding get_current_date_def Let_def
    by (rule rfc1123_compose)
       (simp_all add: v mon day_name_shape two_digits_shape year_length str_of_nat_digits)
qed


section \<open>What \<open>serve_file\<close> writes\<close>

lemma header_block:
  "str_join CRLF (headers e http_version responsecode n file_path) =
     http_version @ '' '' @ responsecode @ CRLF @
     ''Server: Python HTTP Server'' @ CRLF @
     ''Date: '' @ get_current_date e @ CRLF @
     ''Content-type: '' @ format_content_type (guess_type e file_path) @ CRLF @
     ''Content-length: '' @ str_of_nat n @ CRLF @
     CRLF"
  by (simp add: headers_def)

lemma open_rb_getsize: "open_rb e p = Inr bytes \<Longrightarrow> getsize e p = Inr (length bytes)"
  by (auto simp: open_rb_def getsize_def split: option.splits node.splits if_splits)

lemma serve_file_opened:
  assumes "open_rb e p = Inr bytes" and "peer_accepts e tr"
  shows "\<exists>rest. fst (serve_file e p rc v tr) =
           tr @ [FileOpen p, Write (str_join CRLF (headers e v rc (length bytes) p))] @ rest"
proof -
  let ?hdr = "str_join CRLF (headers e v rc (length bytes) p)"
  let ?tr1 = "tr @ [FileOpen p] @ [Write ?hdr]"
  let ?tr2 = "if v = ''HTTP/1.0'' then ?tr1 @ [Settimeout (timeout e)] else ?tr1"
  have acc: "peer_accepts e (tr @ [FileOpen p])"
    using assms(2) by (simp add: peer_accepts_def writes_append split: option.splits)
  obtain body where body: "fst (stream_chunks e bytes ?tr2) = ?tr2 @ map Write body"
    using stream_chunks_adds by blast
  have so: "serve_opened e p bytes rc v (tr @ [FileOpen p]) = stream_chunks e bytes ?tr2"
    using acc open_rb_getsize [OF assms(1)] by (simp add: serve_opened_def out_write_def sock_send_def)
  obtain tr' x where res: "stream_chunks e bytes ?tr2 = (tr', x)"
    by (cases "stream_chunks e bytes ?tr2")
  with body have tr': "tr' = ?tr2 @ map Write body" by simp
  show ?thesis
  proof (cases x)
    case None
    with res so assms(1) tr' show ?thesis
      by (simp add: serve_file_def)
  next
    case (Some y)
    with res so assms(1) tr' show ?thesis
      by (simp add: serve_file_def)
  qed
qed

lemma serve_file_unlimited:
  assumes "open_rb e p = Inr bytes" and "write_limit e = None"
  shows "\<exists>body. serve_file e p rc v tr =
           (tr @ [FileOpen p, Write (str_join CRLF (headers e v rc (length bytes) p))] @
              (if v = ''HTTP/1.0'' then [Settimeout (timeout e)] else []) @
              map Write body @ [FileClose p], None) \<and>
           concat body = bytes \<and>
           (\<forall>c\<in>set body. c \<noteq> [] \<and> length c \<le> 4096) \<and>
           (\<forall>c\<in>set (butlast body). length c = 4096)"
proof -
  let ?hdr = "str_join CRLF (headers e v rc (length bytes) p)"
  let ?tr1 = "(tr @ [FileOpen p]) @ [Write ?hdr]"
  let ?tr2 = "if v = ''HTTP/1.0'' then ?tr1 @ [Settimeout (timeout e)] else ?tr1"
  have so: "serve_opened e p bytes rc v (tr @ [FileOpen p]) = stream_chunks e bytes ?tr2"
    using assms(2) open_rb_getsize [OF assms(1)]
    by (simp add: serve_opened_def out_write_unlimited)
  from stream_chunks_unlimited [OF assms(2), of bytes ?tr2] obtain body where
    run: "stream_chunks e bytes ?tr2 = (?tr2 @ map Write body, None)" and
    props: "concat body = bytes" "\<forall>c\<in>set body. c \<noteq> [] \<and> length c \<le> 4096"
      "\<forall>c\<in>set (butlast body). length c = 4096"
    by blast
  have "serve_file e p rc v tr =
           (tr @ [FileOpen p, Write ?hdr] @
              (if v = ''HTTP/1.0'' then [Settimeout (timeout e)] else []) @
              map Write body @ [FileClose p], None)"
    using assms(1) so run by (simp add: serve_file_def)
  with props show ?thesis by blast
qed


lemma example_date: "get_current_date example_env = ''Wed, 04 Nov 2026 09:05:00 GMT''"
  by (simp add: get_current_date_def example_defs day_names_def month_names_def two_digits_def
      str_of_nat.simps digit_chr_def)

lemma example_open_a: "open_rb example_env ''/srv/www/a.txt'' = Inr ''hello''"
  by (simp add: open_rb_def example_defs)

lemma example_type_a: "guess_type example_env ''/srv/www/a.txt'' = Some ''text/plain''"
  by (simp add: example_defs splitext_def rfind_def lower_def chr_lower_def
      ascii_lowercase_def ascii_uppercase_def)

lemma example_unlimited: "write_limit example_env = None"
  by (simp add: example_defs)

lemma example_open_big: "open_rb example_env ''/srv/www/big.txt'' = Inr (replicate 5000 (CHR ''x''))"
  by (simp add: open_rb_def example_defs)

lemma example_stream:
  "stream_chunks example_env (replicate 5000 (CHR ''x'')) [] =
     ([Write (replicate 4096 (CHR ''x'')), Write (replicate 904 (CHR ''x''))], None)"
  by (simp add: stream_chunks.simps out_write_def sock_send_def peer_accepts_def example_unlimited)


section \<open>The header block\<close>

text \<open>
  Claim C4. For every served response (the file opens and the peer takes the write), the
  first thing \<open>serve_file\<close> hands to the socket, in one \<open>write\<close>, is the header block:
  the line \<open><http_version> <responsecode>\<close>, the fixed \<open>Server\<close> header, the \<open>Date\<close>
  header, the \<open>Content-type\<close> header (the text \<open>None\<close> when the extension has no
  mapping), the \<open>Content-length\<close> header with the byte size of the file in decimal, and
  an empty line, each ended by CRLF. The date has the RFC 1123 shape, and the length is a
  string of digits whose decimal value is the size of the file.
\<close>

theorem C4_header_block:
  assumes "open_rb e file_path = Inr bytes" and "peer_accepts e tr"
  shows "(\<exists>rest. fst (serve_file e file_path responsecode http_version tr) =
            tr @ [FileOpen file_path,
                  Write (http_version @ '' '' @ responsecode @ CRLF @
                         ''Server: Python HTTP Server'' @ CRLF @
                         ''Date: '' @ get_current_date e @ CRLF @
                         ''Content-type: '' @
                            (case guess_type e file_path of None \<Rightarrow> ''None'' | Some t \<Rightarrow> t) @ CRLF @
                         ''Content-length: '' @ str_of_nat (length bytes) @ CRLF @
                         CRLF)] @ rest) \<and>
         nat_of_digits (str_of_nat (length bytes)) = length bytes \<and>
         list_all is_digit (str_of_nat (length bytes)) \<and>
         (valid_datetime (utcnow e) \<longrightarrow> rfc1123_shape (get_current_date e))"
proof (intro conjI impI)
  from serve_file_opened [OF assms, of responsecode http_version]
  show "\<exists>rest. fst (serve_file e file_path responsecode http_version tr) =
            tr @ [FileOpen file_path,
                  Write (http_version @ '' '' @ responsecode @ CRLF @
                         ''Server: Python HTTP Server'' @ CRLF @
                         ''Date: '' @ get_current_date e @ CRLF @
                         ''Content-type: '' @
                            (case guess_type e file_path of None \<Rightarrow> ''None'' | Some t \<Rightarrow> t) @ CRLF @
                         ''Content-length: '' @ str_of_nat (length bytes) @ CRLF @
                         CRLF)] @ rest"
    by (simp only: header_block format_content_type_def)
  show "nat_of_digits (str_of_nat (length bytes)) = length bytes"
    by (rule nat_of_digits_str_of_nat)
  show "list_all is_digit (str_of_nat (length bytes))"
    by (rule str_of_nat_digits)
  show "rfc1123_shape (get_current_date e)" if "valid_datetime (utcnow e)"
    using that by (rule get_current_date_shape)
qed

theorem C4_header_block_witness:
  "open_rb example_env ''/srv/www/a.txt'' = Inr ''hello'' \<and>
   peer_accepts example_env [] \<and>
   valid_datetime (utcnow example_env) \<and>
   take 2 (fst (serve_file example_env ''/srv/www/a.txt'' ''200 OK'' ''HTTP/1.0'' [])) =
     [FileOpen ''/srv/www/a.txt'',
      Write (''HTTP/1.0 200 OK'' @ CRLF @
             ''Server: Python HTTP Server'' @ CRLF @
             ''Date: Wed, 04 Nov 2026 09:05:00 GMT'' @ CRLF @
             ''Content-type: text/plain'' @ CRLF @
             ''Content-length: 5'' @ CRLF @
             CRLF)] \<and>
   rfc1123_shape (get_current_date example_env)"
proof -
  have acc: "peer_accepts example_env []"
    by (simp add: peer_accepts_def example_unlimited)
  have valid: "valid_datetime (utcnow example_env)"
    by (simp add: valid_datetime_def example_defs)
  have five: "str_of_nat (Suc (Suc (Suc (Suc (Suc 0))))) = ''5''"
    by (simp add: str_of_nat.simps digit_chr_def)
  note main = C4_header_block [OF example_open_a acc, of "''200 OK''" "''HTTP/1.0''"]
  from main obtain rest where
    "fst (serve_file example_env ''/srv/www/a.txt'' ''200 OK'' ''HTTP/1.0'' []) =
       [] @ [FileOpen ''/srv/www/a.txt'',
             Write (''HTTP/1.0'' @ '' '' @ ''200 OK'' @ CRLF @
                    ''Server: Python HTTP Server'' @ CRLF @
                    ''Date: '' @ get_current_date example_env @ CRLF @
                    ''Content-type: '' @
                      (case guess_type example_env ''/srv/www/a.txt'' of
                         None \<Rightarrow> ''None'' | Some t \<Rightarrow> t) @ CRLF @
                    ''Content-length: '' @ str_of_nat (length ''hello'') @ CRLF @
                    CRLF)] @ rest"
    by blast
  then have first: "take 2 (fst (serve_file example_env ''/srv/www/a.txt'' ''200 OK'' ''HTTP/1.0'' [])) =
     [FileOpen ''/srv/www/a.txt'',
      Write (''HTTP/1.0 200 OK'' @ CRLF @
             ''Server: Python HTTP Server'' @ CRLF @
             ''Date: Wed, 04 Nov 2026 09:05:00 GMT'' @ CRLF @
             ''Content-type: text/plain'' @ CRLF @
             ''Content-length: 5'' @ CRLF @
             CRLF)]"
    by (simp add: example_date example_type_a five)
  from main valid have "rfc1123_shape (get_current_date example_env)"
    by blast
  with example_open_a acc valid first show ?thesis
    by blast
qed


section \<open>The body\<close>

text \<open>
  What is handed to \<open>write\<close>. When the file opens and the socket never breaks, the
  buffers handed to \<open>out_file.write\<close> after the header are the file in chunks of 4096
  bytes: no chunk is empty or longer than 4096 bytes, every chunk but the last has exactly
  4096 bytes, and the chunks put together are the bytes of the file.
\<close>

lemma served_buffers_round_trip:
  assumes "open_rb e file_path = Inr bytes" and "write_limit e = None"
  shows "\<exists>header body.
           writes (fst (serve_file e file_path responsecode http_version tr)) =
             writes tr @ header # body \<and>
           concat body = bytes \<and> length (concat body) = length bytes \<and>
           (\<forall>chunk\<in>set body. chunk \<noteq> [] \<and> length chunk \<le> 4096) \<and>
           (\<forall>chunk\<in>set (butlast body). length chunk = 4096)"
proof -
  from serve_file_unlimited [OF assms, of responsecode http_version tr] obtain body where
    run: "serve_file e file_path responsecode http_version tr =
           (tr @ [FileOpen file_path,
                  Write (str_join CRLF (headers e http_version responsecode (length bytes) file_path))] @
              (if http_version = ''HTTP/1.0'' then [Settimeout (timeout e)] else []) @
              map Write body @ [FileClose file_path], None)" and
    props: "concat body = bytes" "\<forall>c\<in>set body. c \<noteq> [] \<and> length c \<le> 4096"
      "\<forall>c\<in>set (butlast body). length c = 4096"
    by blast
  have "writes (fst (serve_file e file_path responsecode http_version tr)) =
          writes tr @
          str_join CRLF (headers e http_version responsecode (length bytes) file_path) # body"
    by (simp add: run writes_append writes_map_Write)
  with props show ?thesis by auto
qed



text \<open>What reaches the socket.\<close>

lemma sent_from_append:
  "sent_from e i (bs @ cs) = sent_from e i bs @ sent_from e (i + length bs) cs"
  by (induction bs arbitrary: i) simp_all

lemma sock_send_transmitted:
  assumes "sock_send e b tr = Inr n"
  shows "out_write e b tr = Inr (tr @ [Write b])"
    and "transmitted e (tr @ [Write b]) = transmitted e tr @ take n b"
proof -
  from assms have n: "n = min (length b) (accepted e (length (writes tr)) (length b))"
    by (simp add: sock_send_def split: if_splits)
  show "out_write e b tr = Inr (tr @ [Write b])"
    using assms by (simp add: out_write_def)
  have "take n b = take (accepted e (length (writes tr)) (length b)) b"
    unfolding n by (simp add: min_def)
  then show "transmitted e (tr @ [Write b]) = transmitted e tr @ take n b"
    by (simp add: transmitted_def writes_append sent_from_append)
qed

lemma sent_from_all_accepted:
  "(\<And>i n. n \<le> accepted e i n) \<Longrightarrow> sent_from e i bs = concat bs"
  by (induction bs arbitrary: i) simp_all

text \<open>When the socket takes every buffer whole, the header and then exactly the bytes of
  the file reach it.\<close>

lemma transmitted_complete:
  assumes "open_rb e p = Inr bytes" and "write_limit e = None"
    and whole: "\<And>i n. n \<le> accepted e i n"
  shows "transmitted e (fst (serve_file e p rc v [])) =
           str_join CRLF (headers e v rc (length bytes) p) @ bytes"
proof -
  from serve_file_unlimited [OF assms(1,2), of rc v "[]"] obtain body where
    run: "serve_file e p rc v [] =
           ([] @ [FileOpen p, Write (str_join CRLF (headers e v rc (length bytes) p))] @
              (if v = ''HTTP/1.0'' then [Settimeout (timeout e)] else []) @
              map Write body @ [FileClose p], None)" and
    cat: "concat body = bytes"
    by blast
  have "writes (fst (serve_file e p rc v [])) =
          str_join CRLF (headers e v rc (length bytes) p) # body"
    by (simp add: run writes_append writes_map_Write)
  then show ?thesis
    by (simp only: transmitted_def sent_from_all_accepted [OF whole]) (simp add: cat)
qed

lemmas slow_peer_defs = slow_peer_env_def example_defs

lemma slow_peer_open:
  "open_rb slow_peer_env ''/srv/www/big.txt'' = Inr (replicate 5000 (CHR ''x''))"
  by (simp add: open_rb_def slow_peer_defs)

lemma slow_peer_size: "getsize slow_peer_env ''/srv/www/big.txt'' = Inr 5000"
  by (simp add: getsize_def slow_peer_defs)

lemma slow_peer_writes:
  "out_write slow_peer_env b tr = Inr (tr @ [Write b])"
  by (simp add: out_write_def sock_send_def peer_accepts_def slow_peer_defs)

lemma slow_peer_stream:
  "stream_chunks slow_peer_env (replicate 5000 (CHR ''x'')) tr =
     (tr @ [Write (replicate 4096 (CHR ''x'')), Write (replicate 904 (CHR ''x''))], None)"
  by (simp add: stream_chunks.simps slow_peer_writes)

lemma slow_peer_run:
  "serve_file slow_peer_env ''/srv/www/big.txt'' ''200 OK'' ''HTTP/1.0'' [] =
     ([FileOpen ''/srv/www/big.txt'',
       Write (str_join CRLF
                (headers slow_peer_env ''HTTP/1.0'' ''200 OK'' 5000 ''/srv/www/big.txt'')),
       Settimeout 10,
       Write (replicate 4096 (CHR ''x'')),
       Write (replicate 904 (CHR ''x'')),
       FileClose ''/srv/www/big.txt''], None)"
proof -
  have t: "timeout slow_peer_env = 10"
    by (simp add: slow_peer_defs)
  have "serve_opened slow_peer_env ''/srv/www/big.txt'' (replicate 5000 (CHR ''x''))
          ''200 OK'' ''HTTP/1.0'' ([] @ [FileOpen ''/srv/www/big.txt'']) =
        ([FileOpen ''/srv/www/big.txt'',
          Write (str_join CRLF
                   (headers slow_peer_env ''HTTP/1.0'' ''200 OK'' 5000 ''/srv/www/big.txt'')),
          Settimeout 10,
          Write (replicate 4096 (CHR ''x'')),
          Write (replicate 904 (CHR ''x''))], None)"
    by (simp add: serve_opened_def slow_peer_size slow_peer_writes slow_peer_stream t)
  then show ?thesis
    by (simp add: serve_file_def slow_peer_open)
qed

text \<open>
  Claim C5. The claim says that serving a file of N bytes transmits exactly N body bytes,
  identical to the file. The code hands the right chunks to \<open>write\<close>, but drops what
  \<open>write\<close> returns: when the socket takes only part of a chunk, the rest of that chunk is
  never sent. With a file of 5000 bytes and a socket that takes 1000 bytes of the first
  chunk, \<open>serve_file\<close> ends normally after 1904 of the 5000 body bytes have gone out.
\<close>

theorem C5_short_write_loses_bytes:
  "open_rb slow_peer_env ''/srv/www/big.txt'' = Inr (replicate 5000 (CHR ''x'')) \<and>
   snd (serve_file slow_peer_env ''/srv/www/big.txt'' ''200 OK'' ''HTTP/1.0'' []) = None \<and>
   writes (fst (serve_file slow_peer_env ''/srv/www/big.txt'' ''200 OK'' ''HTTP/1.0'' [])) =
     [str_join CRLF (headers slow_peer_env ''HTTP/1.0'' ''200 OK'' 5000 ''/srv/www/big.txt''),
      replicate 4096 (CHR ''x''), replicate 904 (CHR ''x'')] \<and>
   transmitted slow_peer_env
     (fst (serve_file slow_peer_env ''/srv/www/big.txt'' ''200 OK'' ''HTTP/1.0'' [])) =
     str_join CRLF (headers slow_peer_env ''HTTP/1.0'' ''200 OK'' 5000 ''/srv/www/big.txt'') @
     replicate 1904 (CHR ''x'')"
proof -
  have taken: "accepted slow_peer_env 0 n = n" "accepted slow_peer_env (Suc 0) n = 1000"
    "accepted slow_peer_env (Suc (Suc 0)) n = n" for n
    by (simp_all add: slow_peer_defs)
  have "replicate 1000 (CHR ''x'') @ replicate 904 (CHR ''x'') = replicate 1904 (CHR ''x'')"
    by (simp add: replicate_add [symmetric])
  then show ?thesis
    by (simp add: slow_peer_open slow_peer_run transmitted_def taken)
qed

section \<open>What \<open>serve_file\<close> can add to a trace\<close>

lemma writer_events_silent:
  assumes "list_all (writer_event e v) ws"
  shows "prints ws = []" and "Sleep n \<notin> set ws" and "ConnClose \<notin> set ws"
    and "Settimeout n \<in> set ws \<Longrightarrow> v = ''HTTP/1.0'' \<and> n = timeout e"
  using assms
  by (induction ws rule: prints.induct) (auto simp: writer_event_def)

lemma writer_event_map_Write: "list_all (writer_event e v) (map Write body)"
  by (induction body) (simp_all add: writer_event_def)

lemma serve_opened_adds:
  "\<exists>ws. fst (serve_opened e p bytes rc v tr) = tr @ ws \<and> list_all (writer_event e v) ws \<and>
        (writes ws = [] \<or> (\<exists>n. hd (writes ws) = str_join CRLF (headers e v rc n p)))"
proof (cases "getsize e p")
  case (Inl x)
  then have "fst (serve_opened e p bytes rc v tr) = tr @ []"
    by (simp add: serve_opened_def)
  then show ?thesis by fastforce
next
  case (Inr n)
  let ?hdr = "str_join CRLF (headers e v rc n p)"
  show ?thesis
  proof (cases "out_write e ?hdr tr")
    case (Inl x)
    with Inr have "fst (serve_opened e p bytes rc v tr) = tr @ []"
      by (simp add: serve_opened_def)
    then show ?thesis by fastforce
  next
    case w: (Inr tr1)
    then have "tr1 = tr @ [Write ?hdr]" by (rule out_write_cases)
    with w have w': "out_write e ?hdr tr = Inr (tr @ [Write ?hdr])" by simp
    let ?mid = "if v = ''HTTP/1.0'' then [Settimeout (timeout e)] else []"
    let ?tr2 = "tr @ Write ?hdr # ?mid"
    obtain body where body: "fst (stream_chunks e bytes ?tr2) = ?tr2 @ map Write body"
      using stream_chunks_adds by blast
    let ?ws = "Write ?hdr # ?mid @ map Write body"
    have "serve_opened e p bytes rc v tr = stream_chunks e bytes ?tr2"
      using Inr w' by (simp add: serve_opened_def)
    with body have "fst (serve_opened e p bytes rc v tr) = tr @ ?ws"
      by simp
    moreover have "list_all (writer_event e v) ?ws"
      by (simp add: writer_event_map_Write) (simp add: writer_event_def)
    moreover have "hd (writes ?ws) = ?hdr" by simp
    ultimately show ?thesis by blast
  qed
qed

lemma serve_file_adds:
  "\<exists>ws. fst (serve_file e p rc v tr) = tr @ ws \<and> list_all (writer_event e v) ws \<and>
        (writes ws = [] \<or> (\<exists>n. hd (writes ws) = str_join CRLF (headers e v rc n p)))"
proof (cases "open_rb e p")
  case (Inl x)
  then have "fst (serve_file e p rc v tr) = tr @ [Print_error ''Error serving file: '' x]"
    by (simp add: serve_file_def)
  moreover have "list_all (writer_event e v) [Print_error ''Error serving file: '' x]"
    by (simp add: writer_event_def)
  ultimately show ?thesis by fastforce
next
  case (Inr bytes)
  from serve_opened_adds [of e p bytes rc v "tr @ [FileOpen p]"] obtain ws where
    ws: "fst (serve_opened e p bytes rc v (tr @ [FileOpen p])) = (tr @ [FileOpen p]) @ ws"
      "list_all (writer_event e v) ws"
      "writes ws = [] \<or> (\<exists>n. hd (writes ws) = str_join CRLF (headers e v rc n p))"
    by blast
  obtain tr' x where res: "serve_opened e p bytes rc v (tr @ [FileOpen p]) = (tr', x)"
    by (cases "serve_opened e p bytes rc v (tr @ [FileOpen p])")
  with ws(1) have tr': "tr' = tr @ FileOpen p # ws" by simp
  let ?tail = "case x of None \<Rightarrow> [FileClose p]
               | Some y \<Rightarrow> [Print_error ''Error serving file: '' y, FileClose p]"
  have "fst (serve_file e p rc v tr) = tr @ (FileOpen p # ws @ ?tail)"
    using Inr res tr' by (simp add: serve_file_def split: option.splits)
  moreover have "list_all (writer_event e v) (FileOpen p # ws @ ?tail)"
    using ws(2) by (simp add: writer_event_def split: option.splits)
  moreover have "writes (FileOpen p # ws @ ?tail) = writes ws"
    by (simp add: writes_append split: option.splits)
  ultimately show ?thesis using ws(3) by metis
qed

lemma serve_file_exn:
  "snd (serve_file e p rc v tr) = None \<or> snd (serve_file e p rc v tr) = Some (UnboundLocalError ''error_file'')"
  by (simp add: serve_file_def split: sum.splits prod.splits option.splits)

lemma serve_file_raises_iff:
  "snd (serve_file e p rc v tr) \<noteq> None \<longleftrightarrow> (\<exists>x. open_rb e p = Inl x)"
  by (auto simp add: serve_file_def split: sum.splits prod.splits option.splits)


section \<open>The request line and the paths through \<open>run\<close>\<close>

lemma str_split_nonempty: "str_split c s \<noteq> []"
  by (induction s) (auto split: list.splits)

lemma str_split_no_sep: "c \<notin> set s \<Longrightarrow> str_split c s = [s]"
  by (induction s) auto

lemma str_split_at_sep: "c \<notin> set a \<Longrightarrow> str_split c (a @ c # r) = a # str_split c r"
  by (induction a) (auto simp: str_split_nonempty split: list.splits)

lemma str_split_single: "str_split c s = [a] \<Longrightarrow> a = s \<and> c \<notin> set s"
proof (induction s arbitrary: a)
  case Nil
  then show ?case by simp
next
  case (Cons x s)
  show ?case
  proof (cases "x = c")
    case True
    with Cons.prems show ?thesis by (simp add: str_split_nonempty)
  next
    case False
    with Cons.prems obtain w where w: "str_split c s = [w]" "a = x # w"
      by (auto simp: str_split_nonempty split: list.splits)
    from Cons.IH [OF w(1)] w(2) False show ?thesis by simp
  qed
qed

lemma few_parts_iff: "length (str_split c s) < 2 \<longleftrightarrow> c \<notin> set s"
proof
  assume "length (str_split c s) < 2"
  then obtain a where "str_split c s = [a]"
    using str_split_nonempty [of c s] by (cases "str_split c s") (auto simp: length_Suc_conv)
  then show "c \<notin> set s" using str_split_single by blast
next
  assume "c \<notin> set s"
  then show "length (str_split c s) < 2" by (simp add: str_split_no_sep)
qed

lemma handle_request_cases [case_names few bad missing forbidden ok]:
  obtains
    (few) "CHR '' '' \<notin> set l"
      "handle_request e l = bad_request e l [Print ''Invalid request'']"
  | (bad) m t rest where "str_split (CHR '' '') l = m # t # rest"
      "upper m \<noteq> ''GET'' \<or> \<not> is_file_supported (unquote e t)"
      "handle_request e l =
         bad_request e m (if debug e then [Print (''file_name '' @ unquote e t)] else [])"
  | (missing) m t rest where "str_split (CHR '' '') l = m # t # rest"
      "upper m = ''GET''" "is_file_supported (unquote e t)"
      "get_file_path e (unquote e t) = None"
      "handle_request e l =
         file_not_found e (unquote e t)
           (if debug e then [Print (''file_name '' @ unquote e t)] else [])"
  | (forbidden) m t rest file_path where "str_split (CHR '' '') l = m # t # rest"
      "upper m = ''GET''" "is_file_supported (unquote e t)"
      "get_file_path e (unquote e t) = Some file_path" "\<not> access_R_OK e file_path"
      "handle_request e l =
         file_forbidden e (unquote e t)
           (if debug e then [Print (''file_name '' @ unquote e t)] else [])"
  | (ok) m t rest file_path where "str_split (CHR '' '') l = m # t # rest"
      "upper m = ''GET''" "is_file_supported (unquote e t)"
      "get_file_path e (unquote e t) = Some file_path" "access_R_OK e file_path"
      "handle_request e l =
         (case serve_file e file_path ''200 OK'' (''HTTP/'' @ protocol e)
                 (if debug e
                  then [Print (''file_name '' @ unquote e t),
                        Print (''Current thread name is '' @ thread_name e @
                               '' and file opened '' @ file_path)]
                  else []) of
            (tr2, Some x) \<Rightarrow> (tr2, Some x)
          | (tr2, None) \<Rightarrow>
              if ''HTTP/'' @ protocol e = ''HTTP/1.0''
              then (tr2 @ [Sleep 2, Print ''Connection closed for HTTP/1.0''], None)
              else (tr2, None))"
proof (cases "length (str_split (CHR '' '') l) < 2")
  case True
  then have "CHR '' '' \<notin> set l" by (simp add: few_parts_iff)
  moreover from True have "handle_request e l = bad_request e l [Print ''Invalid request'']"
    by (simp add: handle_request_def Let_def)
  ultimately show ?thesis by (rule few)
next
  case False
  then obtain m t rest where parts: "str_split (CHR '' '') l = m # t # rest"
    by (cases "str_split (CHR '' '') l" rule: list.exhaust [case_names Nil Cons])
       (auto simp: neq_Nil_conv)
  show ?thesis
  proof (cases "upper m \<noteq> ''GET'' \<or> \<not> is_file_supported (unquote e t)")
    case True
    with parts have "handle_request e l =
         bad_request e m (if debug e then [Print (''file_name '' @ unquote e t)] else [])"
      by (simp add: handle_request_def Let_def)
    with parts True show ?thesis by (rule bad)
  next
    case False
    then have gate: "upper m = ''GET''" "is_file_supported (unquote e t)"
      by simp_all
    show ?thesis
    proof (cases "get_file_path e (unquote e t)")
      case None
      with parts gate have hr: "handle_request e l =
         file_not_found e (unquote e t)
           (if debug e then [Print (''file_name '' @ unquote e t)] else [])"
        by (simp add: handle_request_def Let_def)
      show ?thesis by (rule missing [OF parts gate None hr])
    next
      case (Some file_path)
      show ?thesis
      proof (cases "access_R_OK e file_path")
        case False
        with parts gate Some have hr: "handle_request e l =
           file_forbidden e (unquote e t)
             (if debug e then [Print (''file_name '' @ unquote e t)] else [])"
          by (simp add: handle_request_def Let_def)
        show ?thesis by (rule forbidden [OF parts gate Some False hr])
      next
        case True
        with parts gate Some have hr: "handle_request e l =
         (case serve_file e file_path ''200 OK'' (''HTTP/'' @ protocol e)
                 (if debug e
                  then [Print (''file_name '' @ unquote e t),
                        Print (''Current thread name is '' @ thread_name e @
                               '' and file opened '' @ file_path)]
                  else []) of
            (tr2, Some x) \<Rightarrow> (tr2, Some x)
          | (tr2, None) \<Rightarrow>
              if ''HTTP/'' @ protocol e = ''HTTP/1.0''
              then (tr2 @ [Sleep 2, Print ''Connection closed for HTTP/1.0''], None)
              else (tr2, None))"
          by (simp add: handle_request_def Let_def split: prod.splits option.splits)
        show ?thesis by (rule ok [OF parts gate Some True hr])
      qed
    qed
  qed
qed


section \<open>The outcome of a connection\<close>

lemma run_trace:
  "fst (run e clients l) =
     fst (handle_request e l) @ ConnClose #
       (case snd (handle_request e l) of None \<Rightarrow> [] | Some x \<Rightarrow> [Print_error ''Server error: '' x])"
  and run_clients: "snd (run e clients l) = clients"
  by (simp_all add: run_def close_connection_def getpeername_def errno_def
      split: prod.splits option.splits)

lemma prints_serve_file: "prints (fst (serve_file e p rc v tr)) = prints tr"
proof -
  obtain ws where "fst (serve_file e p rc v tr) = tr @ ws" "list_all (writer_event e v) ws"
    using serve_file_adds by blast
  then show ?thesis
    by (simp add: prints_append writer_events_silent(1))
qed

lemma prints_run: "prints (fst (run e clients l)) = prints (fst (handle_request e l))"
  by (simp add: run_trace prints_append split: option.splits)

lemma outcome_by_prints: "prints tr = prints tr' \<Longrightarrow> outcome tr = outcome tr'"
  by (simp add: outcome_def announced_def)

lemma prints_debug_line:
  "prints (if debug e then [Print (''file_name '' @ t)] else []) =
     (if debug e then [''file_name '' @ t] else [])"
  by simp

lemma outcome_bad_request: "outcome (fst (bad_request e u tr)) = BadRequest"
  by (simp add: outcome_def announced_def bad_request_def prints_serve_file prints_append
      startswith_def)

lemma outcome_file_not_found:
  "outcome (fst (file_not_found e t (if debug e then [Print (''file_name '' @ t)] else []))) = NotFound"
  by (simp add: outcome_def announced_def file_not_found_def prints_serve_file prints_append
      startswith_def)

lemma outcome_file_forbidden:
  "outcome (fst (file_forbidden e t (if debug e then [Print (''file_name '' @ t)] else []))) = Forbidden"
  by (simp add: outcome_def announced_def file_forbidden_def prints_serve_file prints_append
      startswith_def)

lemma outcome_served:
  assumes "handle_request e l =
         (case serve_file e file_path ''200 OK'' (''HTTP/'' @ protocol e)
                 (if debug e
                  then [Print (''file_name '' @ t),
                        Print (''Current thread name is '' @ thread_name e @
                               '' and file opened '' @ file_path)]
                  else []) of
            (tr2, Some x) \<Rightarrow> (tr2, Some x)
          | (tr2, None) \<Rightarrow>
              if ''HTTP/'' @ protocol e = ''HTTP/1.0''
              then (tr2 @ [Sleep 2, Print ''Connection closed for HTTP/1.0''], None)
              else (tr2, None))"
  shows "outcome (fst (handle_request e l)) = OK"
proof -
  let ?tr1 = "if debug e
                  then [Print (''file_name '' @ t),
                        Print (''Current thread name is '' @ thread_name e @
                               '' and file opened '' @ file_path)]
                  else []"
  let ?s = "serve_file e file_path ''200 OK'' (''HTTP/'' @ protocol e) ?tr1"
  have p: "prints (fst ?s) = prints ?tr1" by (rule prints_serve_file)
  have "prints (fst (handle_request e l)) = prints ?tr1 \<or>
        prints (fst (handle_request e l)) = prints ?tr1 @ [''Connection closed for HTTP/1.0'']"
    using p unfolding assms
    by (cases ?s) (auto simp: prints_append split: option.splits)
  then show ?thesis
    by (cases "debug e") (auto simp: outcome_def announced_def startswith_def)
qed

lemma outcome_run:
  "outcome (fst (run e clients l)) =
     (case str_split (CHR '' '') l of
        m # t # rest \<Rightarrow>
          if upper m \<noteq> ''GET'' \<or> \<not> is_file_supported (unquote e t) then BadRequest
          else (case get_file_path e (unquote e t) of
                  None \<Rightarrow> NotFound
                | Some file_path \<Rightarrow> if access_R_OK e file_path then OK else Forbidden)
      | _ \<Rightarrow> BadRequest)"
proof -
  have r: "outcome (fst (run e clients l)) = outcome (fst (handle_request e l))"
    by (rule outcome_by_prints) (rule prints_run)
  show ?thesis
  proof (cases e l rule: handle_request_cases)
    case few
    then show ?thesis
      by (simp add: r outcome_bad_request str_split_no_sep)
  next
    case (bad m t rest)
    then show ?thesis
      by (auto simp add: r outcome_bad_request)
  next
    case (missing m t rest)
    then show ?thesis
      by (simp add: r outcome_file_not_found)
  next
    case (forbidden m t rest file_path)
    then show ?thesis
      by (simp add: r outcome_file_forbidden)
  next
    case (ok m t rest file_path)
    from outcome_served [OF ok(6)] ok(1-5) show ?thesis
      by (simp add: r)
  qed
qed


section \<open>The method and extension gate\<close>

lemma chr_upper_G: "chr_upper c = CHR ''G'' \<longleftrightarrow> c = CHR ''g'' \<or> c = CHR ''G''"
  by (auto simp: chr_upper_def ascii_lowercase_def ascii_uppercase_def split: if_splits)

lemma chr_upper_E: "chr_upper c = CHR ''E'' \<longleftrightarrow> c = CHR ''e'' \<or> c = CHR ''E''"
  by (auto simp: chr_upper_def ascii_lowercase_def ascii_uppercase_def split: if_splits)

lemma chr_upper_T: "chr_upper c = CHR ''T'' \<longleftrightarrow> c = CHR ''t'' \<or> c = CHR ''T''"
  by (auto simp: chr_upper_def ascii_lowercase_def ascii_uppercase_def split: if_splits)

lemma upper_GET_iff:
  "upper m = ''GET'' \<longleftrightarrow>
     m \<in> set [''GET'', ''GEt'', ''GeT'', ''Get'', ''gET'', ''gEt'', ''geT'', ''get'']"
proof
  assume "upper m = ''GET''"
  then obtain a b c where m: "m = [a, b, c]"
    and "chr_upper a = CHR ''G''" "chr_upper b = CHR ''E''" "chr_upper c = CHR ''T''"
    by (auto simp: upper_def map_eq_Cons_conv)
  then show "m \<in> set [''GET'', ''GEt'', ''GeT'', ''Get'', ''gET'', ''gEt'', ''geT'', ''get'']"
    unfolding chr_upper_G chr_upper_E chr_upper_T by auto
next
  assume "m \<in> set [''GET'', ''GEt'', ''GeT'', ''Get'', ''gET'', ''gEt'', ''geT'', ''get'']"
  then show "upper m = ''GET''"
    by (auto simp: upper_def chr_upper_def ascii_lowercase_def ascii_uppercase_def)
qed

lemma Print_in_prints: "Print s \<in> set tr \<Longrightarrow> s \<in> set (prints tr)"
  by (induction tr rule: prints.induct) auto

lemma no_501_bad_request:
  "\<not> announced ''501'' tr \<Longrightarrow> \<not> announced ''501'' (fst (bad_request e u tr))"
  by (simp add: announced_def bad_request_def prints_serve_file prints_append startswith_def)

lemma no_501_file_not_found:
  "\<not> announced ''501'' tr \<Longrightarrow> \<not> announced ''501'' (fst (file_not_found e u tr))"
  by (simp add: announced_def file_not_found_def prints_serve_file prints_append startswith_def)

lemma no_501_file_forbidden:
  "\<not> announced ''501'' tr \<Longrightarrow> \<not> announced ''501'' (fst (file_forbidden e u tr))"
  by (simp add: announced_def file_forbidden_def prints_serve_file prints_append startswith_def)

lemma no_501_debug_line:
  "\<not> announced ''501'' (if debug e then [Print (''file_name '' @ t)] else [])"
  by (simp add: announced_def startswith_def)

lemma announced_by_prints: "prints tr = prints tr' \<Longrightarrow> announced code tr = announced code tr'"
  by (simp add: announced_def)

lemma no_501_run: "\<not> announced ''501'' (fst (run e clients l))"
proof -
  have r: "announced ''501'' (fst (run e clients l)) = announced ''501'' (fst (handle_request e l))"
    by (rule announced_by_prints) (rule prints_run)
  show ?thesis
  proof (cases e l rule: handle_request_cases)
    case few
    have "\<not> announced ''501'' [Print ''Invalid request'']"
      by (simp add: announced_def startswith_def)
    then have "\<not> announced ''501'' (fst (bad_request e l [Print ''Invalid request'']))"
      by (rule no_501_bad_request)
    with few(2) show ?thesis
      by (simp add: r)
  next
    case (bad m t rest)
    then show ?thesis
      by (simp add: r no_501_bad_request no_501_debug_line)
  next
    case (missing m t rest)
    then show ?thesis
      by (simp add: r no_501_file_not_found no_501_debug_line)
  next
    case (forbidden m t rest file_path)
    then show ?thesis
      by (simp add: r no_501_file_forbidden no_501_debug_line)
  next
    case (ok m t rest file_path)
    from outcome_served [OF ok(6)] show ?thesis
      by (simp add: r outcome_def split: if_splits)
  qed
qed

lemmas str_defs = upper_def lower_def chr_upper_def chr_lower_def ascii_lowercase_def
  ascii_uppercase_def

lemmas gate_defs = is_file_supported_def supported_types_def splitext_def rfind_def

lemma example_unquote: "unquote example_env s = s"
  by (simp add: example_defs)

lemma example_resolve_a: "get_file_path example_env ''/a.txt'' = Some ''/srv/www/a.txt''"
  by (simp add: get_file_path_def path_exists_def path_defs example_defs)

lemma example_access_a: "access_R_OK example_env ''/srv/www/a.txt''"
  by (simp add: access_R_OK_def example_defs)

lemma example_supported_a: "is_file_supported ''/a.txt''"
  by (simp add: gate_defs str_defs)

lemma example_get_a:
  "outcome (fst (run example_env {} ''GET /a.txt HTTP/1.1'')) = OK"
  by (simp add: outcome_run example_unquote example_resolve_a example_access_a
      example_supported_a str_defs)


text \<open>
  Claim C2. The requested file is served (no error method runs) only when the method is
  \<open>GET\<close> in some mix of upper and lower case and the lower-cased extension of the decoded
  target is one of pdf, jpeg, jpg, png, txt, gif, html, mp4, json, js, css or empty. With
  any other method or extension the connection ends in \<open>bad_request\<close>, whatever the file
  system holds. No run ends in \<open>method_not_supported\<close>: its line
  \<open>HTTP 501 Error: ...\<close> is never printed.
\<close>

theorem C2_method_and_extension_gate:
  "(outcome (fst (run e clients l)) = OK \<longrightarrow>
      (\<exists>m t rest. str_split (CHR '' '') l = m # t # rest \<and>
         m \<in> set [''GET'', ''GEt'', ''GeT'', ''Get'', ''gET'', ''gEt'', ''geT'', ''get''] \<and>
         lower (snd (splitext (unquote e t))) \<in>
           set [''.pdf'', ''.jpeg'', ''.jpg'', ''.png'', ''.txt'', ''.gif'', ''.html'',
                ''.mp4'', ''.json'', ''.js'', ''.css'', []])) \<and>
   (\<forall>m t rest.
      str_split (CHR '' '') l = m # t # rest \<and>
      (upper m \<noteq> ''GET'' \<or>
       lower (snd (splitext (unquote e t))) \<notin>
         set [''.pdf'', ''.jpeg'', ''.jpg'', ''.png'', ''.txt'', ''.gif'', ''.html'',
              ''.mp4'', ''.json'', ''.js'', ''.css'', []]) \<longrightarrow>
      outcome (fst (run e clients l)) = BadRequest \<and>
      handle_request e l =
        bad_request e m (if debug e then [Print (''file_name '' @ unquote e t)] else [])) \<and>
   outcome (fst (run e clients l)) \<noteq> MethodNotSupported \<and>
   (\<forall>u. Print (''HTTP 501 Error: '' @ u @ '' HTTP method not implemented!'')
          \<notin> set (fst (run e clients l)))"
proof (intro conjI allI impI)
  assume okay: "outcome (fst (run e clients l)) = OK"
  then obtain m t rest where parts: "str_split (CHR '' '') l = m # t # rest"
    by (auto simp: outcome_run split: list.splits)
  with okay have "upper m = ''GET''" and "is_file_supported (unquote e t)"
    by (auto simp: outcome_run split: if_splits)
  then have "m \<in> set [''GET'', ''GEt'', ''GeT'', ''Get'', ''gET'', ''gEt'', ''geT'', ''get'']"
    and "lower (snd (splitext (unquote e t))) \<in>
           set [''.pdf'', ''.jpeg'', ''.jpg'', ''.png'', ''.txt'', ''.gif'', ''.html'',
                ''.mp4'', ''.json'', ''.js'', ''.css'', []]"
    by (simp_all only: upper_GET_iff) (auto simp: is_file_supported_def supported_types_def)
  with parts show "\<exists>m t rest. str_split (CHR '' '') l = m # t # rest \<and>
         m \<in> set [''GET'', ''GEt'', ''GeT'', ''Get'', ''gET'', ''gEt'', ''geT'', ''get''] \<and>
         lower (snd (splitext (unquote e t))) \<in>
           set [''.pdf'', ''.jpeg'', ''.jpg'', ''.png'', ''.txt'', ''.gif'', ''.html'',
                ''.mp4'', ''.json'', ''.js'', ''.css'', []]"
    by blast
next
  fix m t rest
  assume a: "str_split (CHR '' '') l = m # t # rest \<and>
      (upper m \<noteq> ''GET'' \<or>
       lower (snd (splitext (unquote e t))) \<notin>
         set [''.pdf'', ''.jpeg'', ''.jpg'', ''.png'', ''.txt'', ''.gif'', ''.html'',
              ''.mp4'', ''.json'', ''.js'', ''.css'', []])"
  then have parts: "str_split (CHR '' '') l = m # t # rest"
    and gate: "upper m \<noteq> ''GET'' \<or> \<not> is_file_supported (unquote e t)"
    by (auto simp: is_file_supported_def supported_types_def)
  from parts gate show "outcome (fst (run e clients l)) = BadRequest"
    by (auto simp: outcome_run)
  from parts gate show "handle_request e l =
        bad_request e m (if debug e then [Print (''file_name '' @ unquote e t)] else [])"
    by (auto simp: handle_request_def Let_def)
next
  show "outcome (fst (run e clients l)) \<noteq> MethodNotSupported"
    by (auto simp: outcome_run split: list.splits option.splits)
next
  fix u
  show "Print (''HTTP 501 Error: '' @ u @ '' HTTP method not implemented!'')
          \<notin> set (fst (run e clients l))"
  proof
    assume "Print (''HTTP 501 Error: '' @ u @ '' HTTP method not implemented!'')
          \<in> set (fst (run e clients l))"
    then have "''HTTP 501 Error: '' @ u @ '' HTTP method not implemented!''
          \<in> set (prints (fst (run e clients l)))"
      by (rule Print_in_prints)
    then have "announced ''501'' (fst (run e clients l))"
      unfolding announced_def list_ex_iff by (rule bexI [rotated]) (simp add: startswith_def)
    with no_501_run show False by blast
  qed
qed


theorem C2_method_and_extension_gate_witness:
  "str_split (CHR '' '') ''POST /a.txt HTTP/1.1'' = ''POST'' # ''/a.txt'' # [''HTTP/1.1''] \<and>
   upper ''POST'' \<noteq> ''GET'' \<and>
   outcome (fst (run example_env {} ''POST /a.txt HTTP/1.1'')) = BadRequest \<and>
   outcome (fst (run example_env {} ''GET /a.txt HTTP/1.1'')) = OK \<and>
   (\<exists>m t rest. str_split (CHR '' '') ''GET /a.txt HTTP/1.1'' = m # t # rest \<and>
      m \<in> set [''GET'', ''GEt'', ''GeT'', ''Get'', ''gET'', ''gEt'', ''geT'', ''get''] \<and>
      lower (snd (splitext (unquote example_env t))) \<in>
        set [''.pdf'', ''.jpeg'', ''.jpg'', ''.png'', ''.txt'', ''.gif'', ''.html'',
             ''.mp4'', ''.json'', ''.js'', ''.css'', []])"
proof -
  have parts: "str_split (CHR '' '') ''POST /a.txt HTTP/1.1'' = ''POST'' # ''/a.txt'' # [''HTTP/1.1'']"
    by simp
  have not_get: "upper ''POST'' \<noteq> ''GET''"
    by (simp add: str_defs)
  from C2_method_and_extension_gate [of example_env "{}" "''POST /a.txt HTTP/1.1''"] parts not_get
  have rejected: "outcome (fst (run example_env {} ''POST /a.txt HTTP/1.1'')) = BadRequest"
    by blast
  from C2_method_and_extension_gate [of example_env "{}" "''GET /a.txt HTTP/1.1''"] example_get_a
  have "\<exists>m t rest. str_split (CHR '' '') ''GET /a.txt HTTP/1.1'' = m # t # rest \<and>
      m \<in> set [''GET'', ''GEt'', ''GeT'', ''Get'', ''gET'', ''gEt'', ''geT'', ''get''] \<and>
      lower (snd (splitext (unquote example_env t))) \<in>
        set [''.pdf'', ''.jpeg'', ''.jpg'', ''.png'', ''.txt'', ''.gif'', ''.html'',
             ''.mp4'', ''.json'', ''.js'', ''.css'', []]"
    by blast
  with parts not_get rejected example_get_a show ?thesis
    by blast
qed


section \<open>The error responses and the protocol version\<close>

lemma startswith_append: "startswith (a @ b) a"
  by (simp add: startswith_def)

lemma header_startswith:
  "startswith (str_join CRLF (headers e v rc n p)) (v @ '' '' @ rc @ CRLF)"
proof -
  have "str_join CRLF (headers e v rc n p) =
          (v @ '' '' @ rc @ CRLF) @
          (''Server: Python HTTP Server'' @ CRLF @
           ''Date: '' @ get_current_date e @ CRLF @
           ''Content-type: '' @ format_content_type (guess_type e p) @ CRLF @
           ''Content-length: '' @ str_of_nat n @ CRLF @ CRLF)"
    by (simp add: headers_def)
  then show ?thesis
    by (simp only: startswith_append)
qed

lemma writes_run: "writes (fst (run e clients l)) = writes (fst (handle_request e l))"
  by (simp add: run_trace writes_append split: option.splits)

lemma error_response_shape:
  assumes hr: "handle_request e l = serve_file e p rc ''HTTP/1.1'' pre"
    and quiet: "writes pre = []" "\<forall>n. Settimeout n \<notin> set pre \<and> Sleep n \<notin> set pre"
  shows "\<forall>n. Settimeout n \<notin> set (fst (run e clients l)) \<and> Sleep n \<notin> set (fst (run e clients l))"
    and "writes (fst (run e clients l)) = [] \<or>
         startswith (hd (writes (fst (run e clients l)))) (''HTTP/1.1 '' @ rc @ CRLF)"
proof -
  obtain ws where ws: "fst (serve_file e p rc ''HTTP/1.1'' pre) = pre @ ws"
    "list_all (writer_event e ''HTTP/1.1'') ws"
    "writes ws = [] \<or> (\<exists>n. hd (writes ws) = str_join CRLF (headers e ''HTTP/1.1'' rc n p))"
    using serve_file_adds by blast
  have no: "Settimeout n \<notin> set ws" "Sleep n \<notin> set ws" for n
    using writer_events_silent(2,4) [OF ws(2)] by auto
  show "\<forall>n. Settimeout n \<notin> set (fst (run e clients l)) \<and> Sleep n \<notin> set (fst (run e clients l))"
    using quiet(2) no by (auto simp: run_trace hr ws(1) split: option.splits)
  have "writes (fst (run e clients l)) = writes ws"
    by (simp add: writes_run hr ws(1) writes_append quiet(1))
  with ws(3) show "writes (fst (run e clients l)) = [] \<or>
         startswith (hd (writes (fst (run e clients l)))) (''HTTP/1.1 '' @ rc @ CRLF)"
    using header_startswith [of e "''HTTP/1.1''" rc _ p] by auto
qed

lemma debug_line_quiet:
  "writes ((if debug e then [Print (''file_name '' @ t)] else []) @ [Print s]) = []"
  "\<forall>n. Settimeout n \<notin> set ((if debug e then [Print (''file_name '' @ t)] else []) @ [Print s]) \<and>
       Sleep n \<notin> set ((if debug e then [Print (''file_name '' @ t)] else []) @ [Print s])"
  by simp_all

lemma outcome_run_handle: "outcome (fst (run e clients l)) = outcome (fst (handle_request e l))"
  by (rule outcome_by_prints) (rule prints_run)

lemma served_shape:
  assumes hr: "handle_request e l =
         (case serve_file e file_path ''200 OK'' (''HTTP/'' @ protocol e)
                 (if debug e
                  then [Print (''file_name '' @ t),
                        Print (''Current thread name is '' @ thread_name e @
                               '' and file opened '' @ file_path)]
                  else []) of
            (tr2, Some x) \<Rightarrow> (tr2, Some x)
          | (tr2, None) \<Rightarrow>
              if ''HTTP/'' @ protocol e = ''HTTP/1.0''
              then (tr2 @ [Sleep 2, Print ''Connection closed for HTTP/1.0''], None)
              else (tr2, None))"
    and ev: "Settimeout n \<in> set (fst (run e clients l)) \<or> Sleep n \<in> set (fst (run e clients l))"
  shows "protocol e = ''1.0''"
proof -
  let ?tr1 = "if debug e
                  then [Print (''file_name '' @ t),
                        Print (''Current thread name is '' @ thread_name e @
                               '' and file opened '' @ file_path)]
                  else []"
  let ?s = "serve_file e file_path ''200 OK'' (''HTTP/'' @ protocol e) ?tr1"
  obtain ws where ws: "fst ?s = ?tr1 @ ws" "list_all (writer_event e (''HTTP/'' @ protocol e)) ws"
    using serve_file_adds by blast
  obtain tr2 x where res: "?s = (tr2, x)" by (cases ?s)
  with ws(1) have tr2: "tr2 = ?tr1 @ ws" by simp
  show ?thesis
  proof (rule ccontr)
    assume other: "protocol e \<noteq> ''1.0''"
    then have no: "Settimeout n \<notin> set ws" "Sleep n \<notin> set ws"
      using writer_events_silent(2,4) [OF ws(2)] by auto
    have "fst (handle_request e l) = tr2"
      unfolding hr res using other by (simp split: option.splits)
    with no tr2 have "Settimeout n \<notin> set (fst (run e clients l))"
      "Sleep n \<notin> set (fst (run e clients l))"
      by (auto simp: run_trace split: option.splits if_splits)
    with ev show False by blast
  qed
qed

lemma stream_chunks_protocol:
  "stream_chunks (e\<lparr>protocol := v\<rparr>) d tr = stream_chunks e d tr"
proof (induction e d tr rule: stream_chunks.induct)
  case (1 e remaining tr)
  have w: "out_write (e\<lparr>protocol := v\<rparr>) b t = out_write e b t" for b t
    by (simp add: out_write_def sock_send_def peer_accepts_def)
  show ?case
  proof (cases "take 4096 remaining = []")
    case True
    then show ?thesis by (simp add: stream_chunks.simps)
  next
    case False
    show ?thesis
    proof (cases "out_write e (take 4096 remaining) tr")
      case (Inl x)
      with False show ?thesis
        by (simp add: stream_chunks.simps [of _ remaining tr] w)
    next
      case (Inr tr')
      with False "1.IH" [OF False Inr] show ?thesis
        by (simp add: stream_chunks.simps [of _ remaining tr] w)
    qed
  qed
qed

lemma env_protocol_simps:
  "open_rb (e\<lparr>protocol := v\<rparr>) p = open_rb e p"
  "getsize (e\<lparr>protocol := v\<rparr>) p = getsize e p"
  "out_write (e\<lparr>protocol := v\<rparr>) b tr = out_write e b tr"
  "headers (e\<lparr>protocol := v\<rparr>) hv rc n p = headers e hv rc n p"
  "get_file_path (e\<lparr>protocol := v\<rparr>) t = get_file_path e t"
  "access_R_OK (e\<lparr>protocol := v\<rparr>) p = access_R_OK e p"
  "getpeername (e\<lparr>protocol := v\<rparr>) tr = getpeername e tr"
  by (simp_all add: open_rb_def getsize_def out_write_def sock_send_def peer_accepts_def headers_def
      get_current_date_def get_file_path_def path_exists_def access_R_OK_def getpeername_def)

lemma serve_opened_protocol:
  "serve_opened (e\<lparr>protocol := v\<rparr>) p bytes rc hv tr = serve_opened e p bytes rc hv tr"
  by (simp add: serve_opened_def env_protocol_simps stream_chunks_protocol split: sum.splits)

lemma serve_file_protocol:
  "serve_file (e\<lparr>protocol := v\<rparr>) p rc hv tr = serve_file e p rc hv tr"
  by (simp add: serve_file_def env_protocol_simps serve_opened_protocol split: sum.splits)

lemma close_connection_protocol:
  "close_connection (e\<lparr>protocol := v\<rparr>) clients tr = close_connection e clients tr"
  by (simp add: close_connection_def env_protocol_simps)

lemma handle_request_protocol:
  assumes "outcome (fst (handle_request e l)) \<noteq> OK"
  shows "handle_request (e\<lparr>protocol := v\<rparr>) l = handle_request e l"
proof (cases e l rule: handle_request_cases)
  case few
  then have "length (str_split (CHR '' '') l) < 2" by (simp add: few_parts_iff)
  then show ?thesis
    by (simp add: handle_request_def bad_request_def serve_file_protocol)
next
  case (bad m t rest)
  then show ?thesis
    by (auto simp add: handle_request_def Let_def bad_request_def serve_file_protocol)
next
  case (missing m t rest)
  then show ?thesis
    by (simp add: handle_request_def Let_def file_not_found_def serve_file_protocol
        env_protocol_simps)
next
  case (forbidden m t rest file_path)
  then show ?thesis
    by (simp add: handle_request_def Let_def file_forbidden_def serve_file_protocol
        env_protocol_simps)
next
  case (ok m t rest file_path)
  from outcome_served [OF ok(6)] assms show ?thesis by simp
qed

lemma run_protocol:
  assumes "outcome (fst (run e clients l)) \<noteq> OK"
  shows "run (e\<lparr>protocol := v\<rparr>) clients l = run e clients l"
proof -
  from assms have "outcome (fst (handle_request e l)) \<noteq> OK"
    by (simp add: outcome_run_handle)
  then have "handle_request (e\<lparr>protocol := v\<rparr>) l = handle_request e l"
    by (rule handle_request_protocol)
  then show ?thesis
    by (simp add: run_def close_connection_protocol split: prod.splits option.splits)
qed


lemma example_resolve_missing: "get_file_path example_env ''/missing.html'' = None"
  by (simp add: get_file_path_def path_exists_def path_defs example_defs)

lemma example_supported_missing: "is_file_supported ''/missing.html''"
  by (simp add: gate_defs str_defs)

lemma example_missing_outcome:
  "outcome (fst (run example_env {} ''GET /missing.html HTTP/1.1'')) = NotFound"
  by (simp add: outcome_run example_unquote example_resolve_missing
      example_supported_missing str_defs)

lemma example_open_404: "open_rb example_env FILE_NOT_FOUND = Inr ''not found''"
  by (simp add: open_rb_def FILE_NOT_FOUND_def example_defs)

lemma example_debug: "debug example_env = False"
  by (simp add: example_defs)

lemma example_missing_handle:
  "handle_request example_env ''GET /missing.html HTTP/1.1'' =
     file_not_found example_env ''/missing.html'' []"
  by (simp add: handle_request_def Let_def example_unquote example_debug
      example_resolve_missing example_supported_missing str_defs)


lemma example_missing_writes:
  "writes (fst (run example_env {} ''GET /missing.html HTTP/1.1'')) \<noteq> []"
proof -
  from serve_file_unlimited [OF example_open_404 example_unlimited,
      of "''404 FileNotFound''" "''HTTP/1.1''"
         "[] @ [Print (''HTTP 404 Error: '' @ ''/missing.html'' @ '' cannot be found!'')]"]
  obtain body where
    "serve_file example_env FILE_NOT_FOUND ''404 FileNotFound'' ''HTTP/1.1''
       ([] @ [Print (''HTTP 404 Error: '' @ ''/missing.html'' @ '' cannot be found!'')]) =
     (([] @ [Print (''HTTP 404 Error: '' @ ''/missing.html'' @ '' cannot be found!'')]) @
        [FileOpen FILE_NOT_FOUND,
         Write (str_join CRLF (headers example_env ''HTTP/1.1'' ''404 FileNotFound''
                  (length ''not found'') FILE_NOT_FOUND))] @
        (if ''HTTP/1.1'' = ''HTTP/1.0'' then [Settimeout (timeout example_env)] else []) @
        map Write body @ [FileClose FILE_NOT_FOUND], None)"
    by blast
  then have "writes (fst (file_not_found example_env ''/missing.html'' [])) \<noteq> []"
    unfolding file_not_found_def by (simp add: writes_append)
  then show ?thesis
    by (simp only: writes_run example_missing_handle not_False_eq_True)
qed


text \<open>
  Claim C10. When a connection ends in an error response (\<open>bad_request\<close>,
  \<open>file_not_found\<close>, \<open>file_forbidden\<close>), the status line, if one is written, starts
  with the literal \<open>HTTP/1.1\<close> followed by the status of that outcome, whatever protocol
  version the server was configured with: the whole run is the same under any other
  configured version. Such a run never sets the socket timeout and never sleeps; both
  happen only when the requested file is served and the configured version is
  \<open>HTTP/1.0\<close>.
\<close>

theorem C10_error_responses_use_http_1_1:
  "(outcome (fst (run e clients l)) \<noteq> OK \<longrightarrow>
      (\<forall>n. Settimeout n \<notin> set (fst (run e clients l)) \<and> Sleep n \<notin> set (fst (run e clients l))) \<and>
      (writes (fst (run e clients l)) = [] \<or>
       startswith (hd (writes (fst (run e clients l))))
         (''HTTP/1.1 '' @ status_line (outcome (fst (run e clients l))) @ CRLF))) \<and>
   (\<forall>n. Settimeout n \<in> set (fst (run e clients l)) \<or> Sleep n \<in> set (fst (run e clients l)) \<longrightarrow>
      outcome (fst (run e clients l)) = OK \<and> ''HTTP/'' @ protocol e = ''HTTP/1.0'') \<and>
   (\<forall>v. outcome (fst (run e clients l)) \<noteq> OK \<longrightarrow>
      run (e\<lparr>protocol := v\<rparr>) clients l = run e clients l)"
proof -
  let ?tr = "fst (run e clients l)"
  have errors: "(\<forall>n. Settimeout n \<notin> set ?tr \<and> Sleep n \<notin> set ?tr) \<and>
      (writes ?tr = [] \<or> startswith (hd (writes ?tr)) (''HTTP/1.1 '' @ status_line (outcome ?tr) @ CRLF))"
    if "outcome ?tr \<noteq> OK"
  proof (cases e l rule: handle_request_cases)
    case few
    have o: "outcome ?tr = BadRequest"
      by (simp add: outcome_run_handle few(2) outcome_bad_request)
    from few(2) have hr: "handle_request e l =
        serve_file e BAD_REQUEST ''400 BadRequest'' ''HTTP/1.1''
          ([Print ''Invalid request''] @ [Print (''HTTP 400 Error: '' @ l @ '' Bad Request!'')])"
      by (simp add: bad_request_def)
    from error_response_shape [OF hr, of clients] show ?thesis
      by (simp add: o status_line_def)
  next
    case (bad m t rest)
    have o: "outcome ?tr = BadRequest"
      by (simp add: outcome_run_handle bad(3) outcome_bad_request)
    from bad(3) have hr: "handle_request e l =
        serve_file e BAD_REQUEST ''400 BadRequest'' ''HTTP/1.1''
          ((if debug e then [Print (''file_name '' @ unquote e t)] else []) @
           [Print (''HTTP 400 Error: '' @ m @ '' Bad Request!'')])"
      by (simp add: bad_request_def)
    from error_response_shape [OF hr debug_line_quiet, of clients] show ?thesis
      by (simp add: o status_line_def)
  next
    case (missing m t rest)
    have o: "outcome ?tr = NotFound"
      by (simp add: outcome_run_handle missing(5) outcome_file_not_found)
    from missing(5) have hr: "handle_request e l =
        serve_file e FILE_NOT_FOUND ''404 FileNotFound'' ''HTTP/1.1''
          ((if debug e then [Print (''file_name '' @ unquote e t)] else []) @
           [Print (''HTTP 404 Error: '' @ unquote e t @ '' cannot be found!'')])"
      by (simp add: file_not_found_def)
    from error_response_shape [OF hr debug_line_quiet, of clients] show ?thesis
      by (simp add: o status_line_def)
  next
    case (forbidden m t rest file_path)
    have o: "outcome ?tr = Forbidden"
      by (simp add: outcome_run_handle forbidden(6) outcome_file_forbidden)
    from forbidden(6) have hr: "handle_request e l =
        serve_file e FORBIDDEN ''403 Forbidden'' ''HTTP/1.1''
          ((if debug e then [Print (''file_name '' @ unquote e t)] else []) @
           [Print (''HTTP 403 Error: '' @ unquote e t @ '' Forbidden (No permission)'')])"
      by (simp add: file_forbidden_def)
    from error_response_shape [OF hr debug_line_quiet, of clients] show ?thesis
      by (simp add: o status_line_def)
  next
    case (ok m t rest file_path)
    from outcome_served [OF ok(6)] that show ?thesis
      by (simp add: outcome_run_handle)
  qed
  have served: "outcome ?tr = OK \<and> ''HTTP/'' @ protocol e = ''HTTP/1.0''"
    if ev: "Settimeout n \<in> set ?tr \<or> Sleep n \<in> set ?tr" for n
  proof -
    from ev errors have o: "outcome ?tr = OK" by blast
    have "protocol e = ''1.0''"
    proof (cases e l rule: handle_request_cases)
      case few
      with o show ?thesis by (simp add: outcome_run_handle outcome_bad_request)
    next
      case (bad m t rest)
      with o show ?thesis by (simp add: outcome_run_handle outcome_bad_request)
    next
      case (missing m t rest)
      with o show ?thesis by (simp add: outcome_run_handle outcome_file_not_found)
    next
      case (forbidden m t rest file_path)
      with o show ?thesis by (simp add: outcome_run_handle outcome_file_forbidden)
    next
      case (ok m t rest file_path)
      from served_shape [OF ok(6) ev] show ?thesis .
    qed
    with o show ?thesis by simp
  qed
  have "run (e\<lparr>protocol := v\<rparr>) clients l = run e clients l" if "outcome ?tr \<noteq> OK" for v
    using that by (rule run_protocol)
  with errors served show ?thesis by blast
qed


theorem C10_error_responses_use_http_1_1_witness:
  "outcome (fst (run example_env {} ''GET /missing.html HTTP/1.1'')) = NotFound \<and>
   ''HTTP/'' @ protocol example_env = ''HTTP/1.0'' \<and>
   Settimeout 10 \<notin> set (fst (run example_env {} ''GET /missing.html HTTP/1.1'')) \<and>
   Sleep 2 \<notin> set (fst (run example_env {} ''GET /missing.html HTTP/1.1'')) \<and>
   writes (fst (run example_env {} ''GET /missing.html HTTP/1.1'')) \<noteq> [] \<and>
   startswith (hd (writes (fst (run example_env {} ''GET /missing.html HTTP/1.1''))))
     (''HTTP/1.1 404 FileNotFound'' @ CRLF) \<and>
   run (example_env\<lparr>protocol := ''1.1''\<rparr>) {} ''GET /missing.html HTTP/1.1'' =
     run example_env {} ''GET /missing.html HTTP/1.1''"
proof -
  let ?l = "''GET /missing.html HTTP/1.1''"
  have err: "outcome (fst (run example_env {} ?l)) \<noteq> OK"
    by (simp add: example_missing_outcome)
  have version: "''HTTP/'' @ protocol example_env = ''HTTP/1.0''"
    by (simp add: example_defs)
  note main = C10_error_responses_use_http_1_1 [of example_env "{}" ?l]
  from main err have quiet: "Settimeout 10 \<notin> set (fst (run example_env {} ?l))"
    "Sleep 2 \<notin> set (fst (run example_env {} ?l))"
    by blast+
  from main err example_missing_writes
  have "startswith (hd (writes (fst (run example_env {} ?l))))
          (''HTTP/1.1 '' @ status_line (outcome (fst (run example_env {} ?l))) @ CRLF)"
    by blast
  then have first: "startswith (hd (writes (fst (run example_env {} ?l))))
          (''HTTP/1.1 404 FileNotFound'' @ CRLF)"
    by (simp add: example_missing_outcome status_line_def)
  from main err have "run (example_env\<lparr>protocol := ''1.1''\<rparr>) {} ?l = run example_env {} ?l"
    by blast
  with example_missing_outcome version quiet example_missing_writes first show ?thesis
    by blast
qed


section \<open>Files opened and closed\<close>

lemma serve_opened_io:
  "\<exists>ws. fst (serve_opened e p bytes rc v tr) = tr @ ws \<and>
        (\<forall>ev\<in>set ws. (\<exists>b. ev = Write b) \<or> ev = Settimeout (timeout e))"
proof (cases "getsize e p")
  case (Inl x)
  then have "fst (serve_opened e p bytes rc v tr) = tr @ []"
    by (simp add: serve_opened_def)
  then show ?thesis by fastforce
next
  case (Inr n)
  let ?hdr = "str_join CRLF (headers e v rc n p)"
  show ?thesis
  proof (cases "out_write e ?hdr tr")
    case (Inl x)
    with Inr have "fst (serve_opened e p bytes rc v tr) = tr @ []"
      by (simp add: serve_opened_def)
    then show ?thesis by fastforce
  next
    case w: (Inr tr1)
    then have "tr1 = tr @ [Write ?hdr]" by (rule out_write_cases)
    with w have w': "out_write e ?hdr tr = Inr (tr @ [Write ?hdr])" by simp
    let ?mid = "if v = ''HTTP/1.0'' then [Settimeout (timeout e)] else []"
    let ?tr2 = "tr @ Write ?hdr # ?mid"
    obtain body where body: "fst (stream_chunks e bytes ?tr2) = ?tr2 @ map Write body"
      using stream_chunks_adds by blast
    have "serve_opened e p bytes rc v tr = stream_chunks e bytes ?tr2"
      using Inr w' by (simp add: serve_opened_def)
    with body have "fst (serve_opened e p bytes rc v tr) = tr @ (Write ?hdr # ?mid @ map Write body)"
      by simp
    moreover have "\<forall>ev\<in>set (Write ?hdr # ?mid @ map Write body).
                     (\<exists>b. ev = Write b) \<or> ev = Settimeout (timeout e)"
      by auto
    ultimately show ?thesis by blast
  qed
qed

lemma serve_file_opened_shape:
  assumes "open_rb e p = Inr bytes"
  shows "\<exists>ws. serve_file e p rc v tr = (tr @ FileOpen p # ws @ [FileClose p], None) \<and>
           (\<forall>q. FileOpen q \<notin> set ws \<and> FileClose q \<notin> set ws) \<and> ConnClose \<notin> set ws"
proof -
  obtain ws where ws: "fst (serve_opened e p bytes rc v (tr @ [FileOpen p])) = (tr @ [FileOpen p]) @ ws"
    "\<forall>ev\<in>set ws. (\<exists>b. ev = Write b) \<or> ev = Settimeout (timeout e)"
    using serve_opened_io by blast
  obtain tr' x where res: "serve_opened e p bytes rc v (tr @ [FileOpen p]) = (tr', x)"
    by (cases "serve_opened e p bytes rc v (tr @ [FileOpen p])")
  with ws(1) have tr': "tr' = tr @ FileOpen p # ws" by simp
  let ?caught = "case x of None \<Rightarrow> [] | Some y \<Rightarrow> [Print_error ''Error serving file: '' y]"
  have "serve_file e p rc v tr = (tr @ FileOpen p # (ws @ ?caught) @ [FileClose p], None)"
    using assms res tr' by (simp add: serve_file_def split: option.splits)
  moreover have "(\<forall>q. FileOpen q \<notin> set (ws @ ?caught) \<and> FileClose q \<notin> set (ws @ ?caught)) \<and>
                 ConnClose \<notin> set (ws @ ?caught)"
    using ws(2) by (auto split: option.splits)
  ultimately show ?thesis by blast
qed

lemma served_file_handle_released:
  assumes "open_rb e p = Inr bytes"
  shows "length (filter (\<lambda>ev. ev = FileOpen p) (fst (serve_file e p rc v []))) = 1"
    and "length (filter (\<lambda>ev. ev = FileClose p) (fst (serve_file e p rc v []))) = 1"
    and "last (fst (serve_file e p rc v [])) = FileClose p"
proof -
  from serve_file_opened_shape [OF assms, of rc v "[]"] obtain ws where
    ws: "serve_file e p rc v [] = ([] @ FileOpen p # ws @ [FileClose p], None)"
      "\<forall>q. FileOpen q \<notin> set ws \<and> FileClose q \<notin> set ws"
    by blast
  from ws(2) have none: "filter (\<lambda>ev. ev = FileOpen p) ws = []" "filter (\<lambda>ev. ev = FileClose p) ws = []"
    by (auto simp: filter_empty_conv)
  show "length (filter (\<lambda>ev. ev = FileOpen p) (fst (serve_file e p rc v []))) = 1"
    by (simp add: ws(1) none)
  show "length (filter (\<lambda>ev. ev = FileClose p) (fst (serve_file e p rc v []))) = 1"
    by (simp add: ws(1) none)
  show "last (fst (serve_file e p rc v [])) = FileClose p"
    by (simp add: ws(1))
qed

lemma error_response_asset:
  assumes hr: "handle_request e l = serve_file e p rc ''HTTP/1.1'' pre"
    and quiet: "writes pre = []" "\<forall>q. FileOpen q \<notin> set pre"
  shows "\<forall>q. FileOpen q \<in> set (fst (run e clients l)) \<longrightarrow> q = p"
    and "\<forall>x. open_rb e p = Inl x \<longrightarrow>
           writes (fst (run e clients l)) = [] \<and>
           (\<forall>q. FileOpen q \<notin> set (fst (run e clients l))) \<and>
           Print_error ''Error serving file: '' x \<in> set (fst (run e clients l)) \<and>
           ConnClose \<in> set (fst (run e clients l)) \<and>
           last (fst (run e clients l)) = Print_error ''Server error: '' (UnboundLocalError ''error_file'')"
    and "\<forall>bytes. open_rb e p = Inr bytes \<longrightarrow>
           FileOpen p \<in> set (fst (run e clients l)) \<and>
           FileClose p \<in> set (fst (run e clients l)) \<and>
           last (fst (run e clients l)) = ConnClose"
proof -
  let ?tr = "fst (run e clients l)"
  have failed: "writes ?tr = [] \<and> (\<forall>q. FileOpen q \<notin> set ?tr) \<and>
           Print_error ''Error serving file: '' x \<in> set ?tr \<and> ConnClose \<in> set ?tr \<and>
           last ?tr = Print_error ''Server error: '' (UnboundLocalError ''error_file'')"
    if "open_rb e p = Inl x" for x
    using quiet by (simp add: run_trace hr serve_file_open_failed [OF that] writes_append)
  have opened: "FileOpen p \<in> set ?tr \<and> FileClose p \<in> set ?tr \<and> last ?tr = ConnClose \<and>
                (\<forall>q. FileOpen q \<in> set ?tr \<longrightarrow> q = p)"
    if "open_rb e p = Inr bytes" for bytes
  proof -
    from serve_file_opened_shape [OF that, of rc "''HTTP/1.1''" pre] obtain ws where
      ws: "serve_file e p rc ''HTTP/1.1'' pre = (pre @ FileOpen p # ws @ [FileClose p], None)"
        "\<forall>q. FileOpen q \<notin> set ws \<and> FileClose q \<notin> set ws"
      by blast
    then show ?thesis
      using quiet(2) by (auto simp add: run_trace hr)
  qed
  show "\<forall>q. FileOpen q \<in> set ?tr \<longrightarrow> q = p"
  proof (cases "open_rb e p")
    case (Inl x)
    from failed [OF this] show ?thesis by blast
  next
    case (Inr bytes)
    from opened [OF this] show ?thesis by blast
  qed
  show "\<forall>x. open_rb e p = Inl x \<longrightarrow>
           writes ?tr = [] \<and> (\<forall>q. FileOpen q \<notin> set ?tr) \<and>
           Print_error ''Error serving file: '' x \<in> set ?tr \<and> ConnClose \<in> set ?tr \<and>
           last ?tr = Print_error ''Server error: '' (UnboundLocalError ''error_file'')"
    using failed by blast
  show "\<forall>bytes. open_rb e p = Inr bytes \<longrightarrow>
           FileOpen p \<in> set ?tr \<and> FileClose p \<in> set ?tr \<and> last ?tr = ConnClose"
    using opened by blast
qed


section \<open>The error assets\<close>

lemma debug_line_opens:
  "\<forall>q. FileOpen q \<notin> set ((if debug e then [Print (''file_name '' @ t)] else []) @ [Print s])"
  by simp

lemma example_post_outcome:
  "outcome (fst (run example_env {} ''POST /a.txt HTTP/1.1'')) = BadRequest"
  by (simp add: outcome_run str_defs)

lemma example_open_400:
  "open_rb example_env BAD_REQUEST = Inl (FileNotFoundError ''error/400.html'')"
  by (simp add: open_rb_def BAD_REQUEST_def example_defs)

lemma example_post_handle:
  "handle_request example_env ''POST /a.txt HTTP/1.1'' =
     serve_file example_env BAD_REQUEST ''400 BadRequest'' ''HTTP/1.1''
       ([] @ [Print (''HTTP 400 Error: '' @ ''POST'' @ '' Bad Request!'')])"
  by (simp add: handle_request_def Let_def example_debug bad_request_def str_defs)


text \<open>
  Claim C9, as the specification states it, places the error assets under the document
  root. The code opens each asset by its fixed relative name, so the file is looked up
  from the working directory of the process: with the document root \<open>/srv/www\<close>, an
  existing \<open>/srv/www/error/400.html\<close> and no \<open>error/400.html\<close> in the working directory,
  a \<open>POST\<close> request ends in \<open>bad_request\<close> and nothing is written.
\<close>

theorem C9_asset_not_under_root_counterexample:
  "open_rb example_env (path_join (document_root example_env) BAD_REQUEST) =
     Inr ''bad request under the root'' \<and>
   \<not> under_root (document_root example_env) (error_asset BadRequest) \<and>
   outcome (fst (run example_env {} ''POST /a.txt HTTP/1.1'')) = BadRequest \<and>
   open_rb example_env (error_asset BadRequest) = Inl (FileNotFoundError ''error/400.html'') \<and>
   writes (fst (run example_env {} ''POST /a.txt HTTP/1.1'')) = []"
proof -
  have under: "open_rb example_env (path_join (document_root example_env) BAD_REQUEST) =
     Inr ''bad request under the root''"
    by (simp add: open_rb_def BAD_REQUEST_def path_defs example_defs)
  have outside: "\<not> under_root (document_root example_env) (error_asset BadRequest)"
    by (simp add: under_root_def error_asset_def BAD_REQUEST_def path_defs example_defs)
  have asset: "open_rb example_env (error_asset BadRequest) = Inl (FileNotFoundError ''error/400.html'')"
    by (simp add: error_asset_def example_open_400)
  from error_response_asset(2) [OF example_post_handle, of "{}"] example_open_400
  have "writes (fst (run example_env {} ''POST /a.txt HTTP/1.1'')) = []"
    by simp
  with under outside example_post_outcome asset show ?thesis
    by blast
qed


text \<open>
  Claim C9, amended. Every outcome other than OK that a run can end in has exactly one
  asset, a fixed relative path (\<open>error/400.html\<close>, \<open>error/403.html\<close> or
  \<open>error/404.html\<close>) that does not depend on the document root, and it is the only file
  such a run opens. If the asset cannot be opened the run still ends cleanly: the failure
  is printed, nothing is written to the socket, no other file is tried, the socket is
  closed, and the last thing that happens is the report of the exception that \<open>run\<close>
  caught. If it can be opened, it is opened and closed again and the run ends with the
  socket closed.
\<close>

theorem C9_error_assets:
  "outcome (fst (run e clients l)) \<noteq> OK \<longrightarrow>
     error_asset (outcome (fst (run e clients l))) \<in>
       set [''error/400.html'', ''error/403.html'', ''error/404.html''] \<and>
     (\<forall>q. FileOpen q \<in> set (fst (run e clients l)) \<longrightarrow>
          q = error_asset (outcome (fst (run e clients l)))) \<and>
     (\<forall>x. open_rb e (error_asset (outcome (fst (run e clients l)))) = Inl x \<longrightarrow>
          writes (fst (run e clients l)) = [] \<and>
          (\<forall>q. FileOpen q \<notin> set (fst (run e clients l))) \<and>
          Print_error ''Error serving file: '' x \<in> set (fst (run e clients l)) \<and>
          ConnClose \<in> set (fst (run e clients l)) \<and>
          last (fst (run e clients l)) =
            Print_error ''Server error: '' (UnboundLocalError ''error_file'')) \<and>
     (\<forall>bytes. open_rb e (error_asset (outcome (fst (run e clients l)))) = Inr bytes \<longrightarrow>
          FileOpen (error_asset (outcome (fst (run e clients l)))) \<in> set (fst (run e clients l)) \<and>
          FileClose (error_asset (outcome (fst (run e clients l)))) \<in> set (fst (run e clients l)) \<and>
          last (fst (run e clients l)) = ConnClose)"
proof
  let ?tr = "fst (run e clients l)"
  assume err: "outcome ?tr \<noteq> OK"
  have assets: "error_asset out \<in> set [''error/400.html'', ''error/403.html'', ''error/404.html'']"
    if "out = BadRequest \<or> out = NotFound \<or> out = Forbidden" for out
    using that by (auto simp: error_asset_def BAD_REQUEST_def FORBIDDEN_def FILE_NOT_FOUND_def)
  show "error_asset (outcome ?tr) \<in> set [''error/400.html'', ''error/403.html'', ''error/404.html''] \<and>
     (\<forall>q. FileOpen q \<in> set ?tr \<longrightarrow> q = error_asset (outcome ?tr)) \<and>
     (\<forall>x. open_rb e (error_asset (outcome ?tr)) = Inl x \<longrightarrow>
          writes ?tr = [] \<and> (\<forall>q. FileOpen q \<notin> set ?tr) \<and>
          Print_error ''Error serving file: '' x \<in> set ?tr \<and> ConnClose \<in> set ?tr \<and>
          last ?tr = Print_error ''Server error: '' (UnboundLocalError ''error_file'')) \<and>
     (\<forall>bytes. open_rb e (error_asset (outcome ?tr)) = Inr bytes \<longrightarrow>
          FileOpen (error_asset (outcome ?tr)) \<in> set ?tr \<and>
          FileClose (error_asset (outcome ?tr)) \<in> set ?tr \<and>
          last ?tr = ConnClose)"
  proof (cases e l rule: handle_request_cases)
    case few
    have o: "outcome ?tr = BadRequest"
      by (simp add: outcome_run_handle few(2) outcome_bad_request)
    have a: "error_asset BadRequest = BAD_REQUEST" by (simp add: error_asset_def)
    from few(2) have hr: "handle_request e l =
        serve_file e BAD_REQUEST ''400 BadRequest'' ''HTTP/1.1''
          ([Print ''Invalid request''] @ [Print (''HTTP 400 Error: '' @ l @ '' Bad Request!'')])"
      by (simp add: bad_request_def)
    from error_response_asset [OF hr, of clients] assets [of BadRequest] show ?thesis
      unfolding o a by simp
  next
    case (bad m t rest)
    have o: "outcome ?tr = BadRequest"
      by (simp add: outcome_run_handle bad(3) outcome_bad_request)
    have a: "error_asset BadRequest = BAD_REQUEST" by (simp add: error_asset_def)
    from bad(3) have hr: "handle_request e l =
        serve_file e BAD_REQUEST ''400 BadRequest'' ''HTTP/1.1''
          ((if debug e then [Print (''file_name '' @ unquote e t)] else []) @
           [Print (''HTTP 400 Error: '' @ m @ '' Bad Request!'')])"
      by (simp add: bad_request_def)
    from error_response_asset [OF hr debug_line_quiet(1) debug_line_opens, of clients]
      assets [of BadRequest] show ?thesis
      unfolding o a by simp
  next
    case (missing m t rest)
    have o: "outcome ?tr = NotFound"
      by (simp add: outcome_run_handle missing(5) outcome_file_not_found)
    have a: "error_asset NotFound = FILE_NOT_FOUND" by (simp add: error_asset_def)
    from missing(5) have hr: "handle_request e l =
        serve_file e FILE_NOT_FOUND ''404 FileNotFound'' ''HTTP/1.1''
          ((if debug e then [Print (''file_name '' @ unquote e t)] else []) @
           [Print (''HTTP 404 Error: '' @ unquote e t @ '' cannot be found!'')])"
      by (simp add: file_not_found_def)
    from error_response_asset [OF hr debug_line_quiet(1) debug_line_opens, of clients]
      assets [of NotFound] show ?thesis
      unfolding o a by simp
  next
    case (forbidden m t rest file_path)
    have o: "outcome ?tr = Forbidden"
      by (simp add: outcome_run_handle forbidden(6) outcome_file_forbidden)
    have a: "error_asset Forbidden = FORBIDDEN" by (simp add: error_asset_def)
    from forbidden(6) have hr: "handle_request e l =
        serve_file e FORBIDDEN ''403 Forbidden'' ''HTTP/1.1''
          ((if debug e then [Print (''file_name '' @ unquote e t)] else []) @
           [Print (''HTTP 403 Error: '' @ unquote e t @ '' Forbidden (No permission)'')])"
      by (simp add: file_forbidden_def)
    from error_response_asset [OF hr debug_line_quiet(1) debug_line_opens, of clients]
      assets [of Forbidden] show ?thesis
      unfolding o a by simp
  next
    case (ok m t rest file_path)
    from outcome_served [OF ok(6)] err show ?thesis
      by (simp add: outcome_run_handle)
  qed
qed

theorem C9_error_assets_witness:
  "outcome (fst (run example_env {} ''POST /a.txt HTTP/1.1'')) = BadRequest \<and>
   error_asset BadRequest = ''error/400.html'' \<and>
   open_rb example_env ''error/400.html'' = Inl (FileNotFoundError ''error/400.html'') \<and>
   writes (fst (run example_env {} ''POST /a.txt HTTP/1.1'')) = [] \<and>
   ConnClose \<in> set (fst (run example_env {} ''POST /a.txt HTTP/1.1'')) \<and>
   last (fst (run example_env {} ''POST /a.txt HTTP/1.1'')) =
     Print_error ''Server error: '' (UnboundLocalError ''error_file'')"
proof -
  let ?tr = "fst (run example_env {} ''POST /a.txt HTTP/1.1'')"
  have err: "outcome ?tr \<noteq> OK"
    by (simp add: example_post_outcome)
  have asset: "error_asset BadRequest = ''error/400.html''"
    by (simp add: error_asset_def BAD_REQUEST_def)
  have failed: "open_rb example_env (error_asset (outcome ?tr)) = Inl (FileNotFoundError ''error/400.html'')"
    by (simp add: example_post_outcome error_asset_def example_open_400)
  from C9_error_assets [of example_env "{}" "''POST /a.txt HTTP/1.1''"] err failed
  have "writes ?tr = [] \<and> ConnClose \<in> set ?tr \<and>
        last ?tr = Print_error ''Server error: '' (UnboundLocalError ''error_file'')"
    by blast
  with example_post_outcome asset failed show ?thesis
    by (simp add: example_post_outcome)
qed


section \<open>The tokens of the request line\<close>

lemma handle_request_parsed:
  assumes "parsed_request l1 = parsed_request l2"
  shows "handle_request e l1 = handle_request e l2"
proof -
  let ?p1 = "str_split (CHR '' '') l1" and ?p2 = "str_split (CHR '' '') l2"
  from assms have same: "take 2 ?p1 = take 2 ?p2"
    by (simp add: parsed_request_def)
  then have len: "min 2 (length ?p1) = min 2 (length ?p2)"
    by (metis length_take min.commute)
  show ?thesis
  proof (cases "length ?p1 < 2")
    case True
    with len have short: "length ?p2 < 2" by simp
    from True short same have "?p1 = ?p2" by simp
    moreover from True obtain a where a: "?p1 = [a]"
      using str_split_nonempty [of "CHR '' ''" l1]
      by (cases ?p1) (auto simp: length_Suc_conv)
    ultimately have "l1 = a" "l2 = a"
      using str_split_single [of "CHR '' ''" l1 a] str_split_single [of "CHR '' ''" l2 a]
      by simp_all
    then show ?thesis by simp
  next
    case False
    with len have long: "\<not> length ?p2 < 2" by simp
    from False long same have "?p1 ! 0 = ?p2 ! 0" "?p1 ! 1 = ?p2 ! 1"
      by (metis nth_take zero_less_numeral, metis nth_take one_less_numeral_iff semiring_norm(76))
    with False long show ?thesis
      by (simp add: handle_request_def Let_def)
  qed
qed

lemma run_parsed:
  "parsed_request l1 = parsed_request l2 \<Longrightarrow> run e clients l1 = run e clients l2"
  by (simp add: run_def handle_request_parsed [of l1 l2])

lemma parsed_request_three:
  assumes "CHR '' '' \<notin> set m" "CHR '' '' \<notin> set t"
  shows "parsed_request (m @ '' '' @ t @ '' '' @ version) = [m, t]"
    and "parsed_request (m @ '' '' @ t) = [m, t]"
  using assms by (simp_all add: parsed_request_def str_split_at_sep str_split_no_sep)


text \<open>
  Claim C7, as the specification states it, makes the line with the trailing version and
  the same line without it equivalent. The line that \<open>readline\<close> returns keeps its
  terminator and \<open>run\<close> never strips it, so on a terminated line without a version the
  terminator is part of the target: \<open>GET /a.txt HTTP/1.1\<close> is served, while
  \<open>GET /a.txt\<close> followed by the newline has the target \<open>/a.txt\<close> plus newline, an
  unsupported extension, and ends in \<open>bad_request\<close>.
\<close>

theorem C7_missing_version_counterexample:
  "parsed_request (''GET /a.txt HTTP/1.1'' @ LF) = [''GET'', ''/a.txt''] \<and>
   parsed_request (''GET /a.txt'' @ LF) = [''GET'', ''/a.txt'' @ LF] \<and>
   outcome (fst (run example_env {} (''GET /a.txt HTTP/1.1'' @ LF))) = OK \<and>
   outcome (fst (run example_env {} (''GET /a.txt'' @ LF))) = BadRequest"
proof -
  have with_version: "str_split (CHR '' '') (''GET /a.txt HTTP/1.1'' @ LF) =
      [''GET'', ''/a.txt'', ''HTTP/1.1'' @ LF]"
    by (simp add: LF_def)
  have without: "str_split (CHR '' '') (''GET /a.txt'' @ LF) = [''GET'', ''/a.txt'' @ LF]"
    by (simp add: LF_def)
  have "outcome (fst (run example_env {} (''GET /a.txt HTTP/1.1'' @ LF))) = OK"
    by (simp only: outcome_run with_version)
       (simp add: example_unquote example_resolve_a example_access_a example_supported_a str_defs)
  moreover have "outcome (fst (run example_env {} (''GET /a.txt'' @ LF))) = BadRequest"
    by (simp only: outcome_run without)
       (simp add: example_unquote gate_defs str_defs LF_def)
  moreover have "parsed_request (''GET /a.txt HTTP/1.1'' @ LF) = [''GET'', ''/a.txt'']"
    by (simp only: parsed_request_def with_version) simp
  moreover have "parsed_request (''GET /a.txt'' @ LF) = [''GET'', ''/a.txt'' @ LF]"
    by (simp only: parsed_request_def without) simp
  ultimately show ?thesis
    by blast
qed


text \<open>
  Claim C7, amended. Only the first two parts of the line, split at single spaces,
  decide what \<open>run\<close> does: two lines with the same first two parts give the same run.
  In particular everything from the second space on is ignored: a line
  \<open>METHOD TARGET VERSION...\<close> and the line \<open>METHOD TARGET\<close> that ends right after the
  target have the same method, the same target and the same run.
\<close>

theorem C7_first_two_tokens_decide:
  "(parsed_request l1 = parsed_request l2 \<longrightarrow> run e clients l1 = run e clients l2) \<and>
   (CHR '' '' \<notin> set m \<and> CHR '' '' \<notin> set t \<longrightarrow>
      parsed_request (m @ '' '' @ t @ '' '' @ version) = [m, t] \<and>
      parsed_request (m @ '' '' @ t) = [m, t] \<and>
      run e clients (m @ '' '' @ t @ '' '' @ version) = run e clients (m @ '' '' @ t))"
proof (intro conjI impI)
  assume "parsed_request l1 = parsed_request l2"
  then show "run e clients l1 = run e clients l2" by (rule run_parsed)
next
  assume a: "CHR '' '' \<notin> set m \<and> CHR '' '' \<notin> set t"
  then have p: "parsed_request (m @ '' '' @ t @ '' '' @ version) = [m, t]"
    "parsed_request (m @ '' '' @ t) = [m, t]"
    using parsed_request_three by blast+
  from p show "parsed_request (m @ '' '' @ t @ '' '' @ version) = [m, t]"
    and "parsed_request (m @ '' '' @ t) = [m, t]" by simp_all
  from p show "run e clients (m @ '' '' @ t @ '' '' @ version) = run e clients (m @ '' '' @ t)"
    by (intro run_parsed) simp
qed


theorem C7_first_two_tokens_decide_witness:
  "CHR '' '' \<notin> set ''GET'' \<and> CHR '' '' \<notin> set ''/a.txt'' \<and>
   parsed_request (''GET /a.txt HTTP/1.1'' @ LF) = [''GET'', ''/a.txt''] \<and>
   parsed_request ''GET /a.txt'' = [''GET'', ''/a.txt''] \<and>
   run example_env {} (''GET /a.txt HTTP/1.1'' @ LF) = run example_env {} ''GET /a.txt''"
proof -
  have tokens: "CHR '' '' \<notin> set ''GET'' \<and> CHR '' '' \<notin> set ''/a.txt''"
    by simp
  from C7_first_two_tokens_decide [of _ _ example_env "{}" "''GET''" "''/a.txt''" "''HTTP/1.1'' @ LF"]
    tokens
  have "parsed_request (''GET'' @ '' '' @ ''/a.txt'' @ '' '' @ ''HTTP/1.1'' @ LF) = [''GET'', ''/a.txt''] \<and>
      parsed_request (''GET'' @ '' '' @ ''/a.txt'') = [''GET'', ''/a.txt''] \<and>
      run example_env {} (''GET'' @ '' '' @ ''/a.txt'' @ '' '' @ ''HTTP/1.1'' @ LF) =
        run example_env {} (''GET'' @ '' '' @ ''/a.txt'')"
    by blast
  with tokens show ?thesis by simp
qed


section \<open>Request lines with fewer than two parts\<close>

lemma stream_chunks_root:
  "stream_chunks (e\<lparr>document_root := r\<rparr>) d tr = stream_chunks e d tr"
proof (induction e d tr rule: stream_chunks.induct)
  case (1 e remaining tr)
  have w: "out_write (e\<lparr>document_root := r\<rparr>) b t = out_write e b t" for b t
    by (simp add: out_write_def sock_send_def peer_accepts_def)
  show ?case
  proof (cases "take 4096 remaining = []")
    case True
    then show ?thesis by (simp add: stream_chunks.simps)
  next
    case False
    show ?thesis
    proof (cases "out_write e (take 4096 remaining) tr")
      case (Inl x)
      with False show ?thesis
        by (simp add: stream_chunks.simps [of _ remaining tr] w)
    next
      case (Inr tr')
      with False "1.IH" [OF False Inr] show ?thesis
        by (simp add: stream_chunks.simps [of _ remaining tr] w)
    qed
  qed
qed

lemma env_root_simps:
  "open_rb (e\<lparr>document_root := r\<rparr>) p = open_rb e p"
  "getsize (e\<lparr>document_root := r\<rparr>) p = getsize e p"
  "out_write (e\<lparr>document_root := r\<rparr>) b tr = out_write e b tr"
  "headers (e\<lparr>document_root := r\<rparr>) hv rc n p = headers e hv rc n p"
  "getpeername (e\<lparr>document_root := r\<rparr>) tr = getpeername e tr"
  by (simp_all add: open_rb_def getsize_def out_write_def sock_send_def peer_accepts_def headers_def
      get_current_date_def getpeername_def)

lemma serve_opened_root:
  "serve_opened (e\<lparr>document_root := r\<rparr>) p bytes rc hv tr = serve_opened e p bytes rc hv tr"
  by (simp add: serve_opened_def env_root_simps stream_chunks_root split: sum.splits)

lemma serve_file_root:
  "serve_file (e\<lparr>document_root := r\<rparr>) p rc hv tr = serve_file e p rc hv tr"
  by (simp add: serve_file_def env_root_simps serve_opened_root split: sum.splits)

lemma close_connection_root:
  "close_connection (e\<lparr>document_root := r\<rparr>) clients tr = close_connection e clients tr"
  by (simp add: close_connection_def env_root_simps)

lemma handle_request_few:
  "CHR '' '' \<notin> set l \<Longrightarrow> handle_request e l = bad_request e l [Print ''Invalid request'']"
  by (simp add: handle_request_def few_parts_iff)

lemma run_few_config:
  assumes "CHR '' '' \<notin> set l"
  shows "run (e\<lparr>document_root := r, protocol := v\<rparr>) clients l = run e clients l"
proof -
  have "handle_request (e\<lparr>document_root := r, protocol := v\<rparr>) l = handle_request e l"
    by (simp add: handle_request_few [OF assms] bad_request_def serve_file_protocol serve_file_root)
  then show ?thesis
    by (simp add: run_def close_connection_protocol close_connection_root
        split: prod.splits option.splits)
qed

lemma example_open_root: "open_rb example_env ''/srv/www'' = Inl (IsADirectoryError ''/srv/www'')"
  by (simp add: open_rb_def example_defs)

lemma example_resolve_empty: "get_file_path example_env [] = Some ''/srv/www''"
  by (simp add: get_file_path_def path_exists_def path_defs example_defs)

lemma example_access_root: "access_R_OK example_env ''/srv/www''"
  by (simp add: access_R_OK_def example_defs)

lemma example_supported_empty: "is_file_supported []"
  by (simp add: gate_defs str_defs)


text \<open>
  Claim C8, as the specification states it, speaks of whitespace-separated tokens. The
  code splits at single spaces: the line \<open>GET\<close> followed by one space has a single
  whitespace-separated token but two parts, \<open>GET\<close> and the empty string. It is not
  answered with \<open>bad_request\<close>: the empty target has a supported (empty) extension,
  resolves to the document root itself, and \<open>run\<close> goes on to serve that path.
\<close>

theorem C8_trailing_space_counterexample:
  "whitespace_tokens ''GET '' = [''GET''] \<and>
   length (whitespace_tokens ''GET '') < 2 \<and>
   outcome (fst (run example_env {} ''GET '')) = OK \<and>
   get_file_path example_env (unquote example_env (str_split (CHR '' '') ''GET '' ! 1)) =
     Some ''/srv/www'' \<and>
   fst (run example_env {} ''GET '') =
     [Print_error ''Error serving file: '' (IsADirectoryError ''/srv/www''),
      ConnClose,
      Print_error ''Server error: '' (UnboundLocalError ''error_file'')]"
proof -
  have tokens: "whitespace_tokens ''GET '' = [''GET'']"
    by (simp add: whitespace_tokens_def is_space_def)
  have out: "outcome (fst (run example_env {} ''GET '')) = OK"
    by (simp add: outcome_run example_unquote example_resolve_empty example_access_root
        example_supported_empty str_defs)
  have resolved: "get_file_path example_env (unquote example_env (str_split (CHR '' '') ''GET '' ! 1)) =
     Some ''/srv/www''"
    by (simp add: example_unquote example_resolve_empty)
  have "handle_request example_env ''GET '' =
     ([Print_error ''Error serving file: '' (IsADirectoryError ''/srv/www'')],
      Some (UnboundLocalError ''error_file''))"
    by (simp add: handle_request_def Let_def example_unquote example_debug example_resolve_empty
        example_access_root example_supported_empty str_defs
        serve_file_open_failed [OF example_open_root])
  then have "fst (run example_env {} ''GET '') =
     [Print_error ''Error serving file: '' (IsADirectoryError ''/srv/www''),
      ConnClose,
      Print_error ''Server error: '' (UnboundLocalError ''error_file'')]"
    by (simp add: run_trace)
  with tokens out resolved show ?thesis
    by simp
qed


text \<open>
  Claim C8, amended. A request line splits into fewer than two parts exactly when it
  contains no space. For every such line \<open>run\<close> prints \<open>Invalid request\<close>, calls
  \<open>bad_request\<close> with the raw line, opens no file but the 400 asset, and closes the
  connection; the document root and the configured protocol play no part, so no path is
  resolved.
\<close>

theorem C8_line_without_space:
  "((length (str_split (CHR '' '') l) < 2) = (CHR '' '' \<notin> set l)) \<and>
   (CHR '' '' \<notin> set l \<longrightarrow>
      handle_request e l = bad_request e l [Print ''Invalid request''] \<and>
      outcome (fst (run e clients l)) = BadRequest \<and>
      take 2 (fst (run e clients l)) =
        [Print ''Invalid request'', Print (''HTTP 400 Error: '' @ l @ '' Bad Request!'')] \<and>
      (\<forall>q. FileOpen q \<in> set (fst (run e clients l)) \<longrightarrow> q = BAD_REQUEST) \<and>
      ConnClose \<in> set (fst (run e clients l)) \<and>
      (\<forall>r v. run (e\<lparr>document_root := r, protocol := v\<rparr>) clients l = run e clients l))"
proof (intro conjI impI)
  show "(length (str_split (CHR '' '') l) < 2) = (CHR '' '' \<notin> set l)"
    by (rule few_parts_iff)
next
  assume no_space: "CHR '' '' \<notin> set l"
  let ?tr = "fst (run e clients l)"
  let ?pre = "[Print ''Invalid request''] @ [Print (''HTTP 400 Error: '' @ l @ '' Bad Request!'')]"
  show few: "handle_request e l = bad_request e l [Print ''Invalid request'']"
    using no_space by (rule handle_request_few)
  then have hr: "handle_request e l = serve_file e BAD_REQUEST ''400 BadRequest'' ''HTTP/1.1'' ?pre"
    by (simp add: bad_request_def)
  show "outcome ?tr = BadRequest"
    by (simp add: outcome_run_handle few outcome_bad_request)
  obtain ws where "fst (serve_file e BAD_REQUEST ''400 BadRequest'' ''HTTP/1.1'' ?pre) = ?pre @ ws"
    using serve_file_adds by blast
  then show "take 2 ?tr =
        [Print ''Invalid request'', Print (''HTTP 400 Error: '' @ l @ '' Bad Request!'')]"
    by (simp add: run_trace hr)
  show "\<forall>q. FileOpen q \<in> set ?tr \<longrightarrow> q = BAD_REQUEST"
    by (rule error_response_asset(1) [OF hr]) simp_all
  show "ConnClose \<in> set ?tr"
    by (simp add: run_trace)
  show "\<forall>r v. run (e\<lparr>document_root := r, protocol := v\<rparr>) clients l = run e clients l"
    using run_few_config [OF no_space] by blast
qed

theorem C8_line_without_space_witness:
  "CHR '' '' \<notin> set (''GET'' @ LF) \<and>
   length (str_split (CHR '' '') (''GET'' @ LF)) < 2 \<and>
   outcome (fst (run example_env {} (''GET'' @ LF))) = BadRequest \<and>
   take 2 (fst (run example_env {} (''GET'' @ LF))) =
     [Print ''Invalid request'', Print (''HTTP 400 Error: '' @ ''GET'' @ LF @ '' Bad Request!'')] \<and>
   ConnClose \<in> set (fst (run example_env {} (''GET'' @ LF))) \<and>
   run (example_env\<lparr>document_root := ''/tmp'', protocol := ''1.1''\<rparr>) {} (''GET'' @ LF) =
     run example_env {} (''GET'' @ LF)"
proof -
  have no_space: "CHR '' '' \<notin> set (''GET'' @ LF)"
    by (simp add: LF_def)
  from C8_line_without_space [of "''GET'' @ LF" example_env "{}"] no_space
  have "length (str_split (CHR '' '') (''GET'' @ LF)) < 2 \<and>
   outcome (fst (run example_env {} (''GET'' @ LF))) = BadRequest \<and>
   take 2 (fst (run example_env {} (''GET'' @ LF))) =
     [Print ''Invalid request'', Print (''HTTP 400 Error: '' @ (''GET'' @ LF) @ '' Bad Request!'')] \<and>
   ConnClose \<in> set (fst (run example_env {} (''GET'' @ LF))) \<and>
   run (example_env\<lparr>document_root := ''/tmp'', protocol := ''1.1''\<rparr>) {} (''GET'' @ LF) =
     run example_env {} (''GET'' @ LF)"
    by blast
  with no_space show ?thesis
    by simp
qed


section \<open>Normalized paths\<close>

lemma str_split_parts_no_sep: "w \<in> set (str_split c s) \<Longrightarrow> c \<notin> set w"
proof (induction s arbitrary: w)
  case Nil
  then show ?case by simp
next
  case (Cons x s)
  show ?case
  proof (cases "x = c")
    case True
    with Cons show ?thesis by auto
  next
    case False
    then obtain v vs where vs: "str_split c s = v # vs"
      using str_split_nonempty [of c s] by (cases "str_split c s") auto
    with False Cons.prems have "w = x # v \<or> w \<in> set vs" by simp
    with False vs Cons.IH show ?thesis by auto
  qed
qed

lemma norm_comps_kept:
  "seg \<in> set (norm_comps ini comps acc) \<Longrightarrow>
   seg \<in> set acc \<or> (seg \<in> set comps \<and> seg \<noteq> [] \<and> seg \<noteq> ''.'')"
proof (induction comps arbitrary: acc)
  case Nil
  then show ?case by simp
next
  case (Cons c comps)
  show ?case
  proof (cases "c = [] \<or> c = ''.''")
    case True
    with Cons.prems have "seg \<in> set (norm_comps ini comps acc)" by auto
    from Cons.IH [OF this] show ?thesis by auto
  next
    case keep: False
    show ?thesis
    proof (cases "c \<noteq> ''..'' \<or> (ini = 0 \<and> acc = []) \<or> (acc \<noteq> [] \<and> last acc = ''..'')")
      case True
      with keep Cons.prems have "seg \<in> set (norm_comps ini comps (acc @ [c]))" by auto
      from Cons.IH [OF this] keep show ?thesis by auto
    next
      case False
      with keep Cons.prems have "seg \<in> set (norm_comps ini comps (butlast acc))"
        by (cases "acc = []") auto
      from Cons.IH [OF this] show ?thesis by (auto dest: in_set_butlastD)
    qed
  qed
qed

lemma norm_comps_no_dotdot:
  "0 < ini \<Longrightarrow> ''..'' \<notin> set acc \<Longrightarrow> ''..'' \<notin> set (norm_comps ini comps acc)"
proof (induction comps arbitrary: acc)
  case Nil
  then show ?case by simp
next
  case (Cons c comps)
  note pos = Cons.prems(1) and clean = Cons.prems(2)
  show ?case
  proof (cases "c = [] \<or> c = ''.''")
    case True
    then have "norm_comps ini (c # comps) acc = norm_comps ini comps acc" by auto
    with Cons.IH [OF pos clean] show ?thesis by simp
  next
    case keep: False
    show ?thesis
    proof (cases "c = ''..''")
      case False
      with keep have "norm_comps ini (c # comps) acc = norm_comps ini comps (acc @ [c])"
        by simp
      moreover from False clean have "''..'' \<notin> set (acc @ [c])" by simp
      ultimately show ?thesis using Cons.IH [OF pos] by simp
    next
      case True
      have no_last: "\<not> (acc \<noteq> [] \<and> last acc = ''..'')"
      proof
        assume "acc \<noteq> [] \<and> last acc = ''..''"
        then have "''..'' \<in> set acc" by (metis last_in_set)
        with clean show False by contradiction
      qed
      have "''..'' \<notin> set (butlast acc)"
        using clean by (auto dest: in_set_butlastD)
      then have "''..'' \<notin> set (norm_comps ini comps (butlast acc))"
        by (rule Cons.IH [OF pos])
      moreover have "norm_comps ini (c # comps) acc =
          (if acc \<noteq> [] then norm_comps ini comps (butlast acc) else norm_comps ini comps acc)"
        using True pos no_last by (cases "acc = []"; cases "last acc = ''..''"; simp)
      ultimately show ?thesis
        by (cases "acc = []") simp_all
    qed
  qed
qed

lemma slashes_empty: "concat (replicate n sep) = [] \<longleftrightarrow> n = 0"
  by (cases n) (simp_all add: sep_def)

lemma str_join_empty:
  assumes "\<forall>c\<in>set cs. c \<noteq> []"
  shows "str_join s cs = [] \<longleftrightarrow> cs = []"
proof (cases cs)
  case Nil
  then show ?thesis by simp
next
  case (Cons c cs')
  with assms have "c \<noteq> []" by simp
  with Cons show ?thesis by (cases cs') simp_all
qed

lemma normpath_empty: "normpath [] = ''.''"
  by (simp add: normpath_def)

lemma initial_slashes_empty: "initial_slashes_of [] = 0"
  by (simp add: initial_slashes_of_def startswith_def sep_def)

lemma normpath_unfolded:
  "x \<noteq> [] \<Longrightarrow> normpath x =
     (if concat (replicate (initial_slashes_of x) sep) @
           str_join sep (norm_comps (initial_slashes_of x) (str_split (CHR ''/'') x) []) = []
      then ''.''
      else concat (replicate (initial_slashes_of x) sep) @
           str_join sep (norm_comps (initial_slashes_of x) (str_split (CHR ''/'') x) []))"
  unfolding normpath_def Let_def by (simp only: if_False)

lemma norm_comps_clean:
  "\<forall>c\<in>set (norm_comps ini (str_split (CHR ''/'') x) []).
     c \<noteq> [] \<and> c \<noteq> ''.'' \<and> CHR ''/'' \<notin> set c"
proof
  fix c
  assume "c \<in> set (norm_comps ini (str_split (CHR ''/'') x) [])"
  from norm_comps_kept [OF this]
  have "c \<in> set (str_split (CHR ''/'') x)" and "c \<noteq> []" and "c \<noteq> ''.''"
    by simp_all
  moreover from this(1) have "CHR ''/'' \<notin> set c" by (rule str_split_parts_no_sep)
  ultimately show "c \<noteq> [] \<and> c \<noteq> ''.'' \<and> CHR ''/'' \<notin> set c" by simp
qed

lemma normpath_shape:
  "\<exists>cs. normpath x =
          (if initial_slashes_of x = 0 \<and> cs = [] then ''.''
           else concat (replicate (initial_slashes_of x) sep) @ str_join sep cs) \<and>
        (\<forall>c\<in>set cs. c \<noteq> [] \<and> c \<noteq> ''.'' \<and> CHR ''/'' \<notin> set c) \<and>
        (0 < initial_slashes_of x \<longrightarrow> ''..'' \<notin> set cs)"
proof (cases "x = []")
  case True
  have a: "normpath x = (if initial_slashes_of x = 0 \<and> ([]::string list) = [] then ''.''
           else concat (replicate (initial_slashes_of x) sep) @ str_join sep [])"
    unfolding True by (simp only: normpath_empty initial_slashes_empty simp_thms if_True)
  have b: "\<forall>c\<in>set ([]::string list). c \<noteq> [] \<and> c \<noteq> ''.'' \<and> CHR ''/'' \<notin> set c"
    by simp
  have c: "0 < initial_slashes_of x \<longrightarrow> ''..'' \<notin> set ([]::string list)"
    by simp
  show ?thesis
    by (rule exI [of _ "[]"]) (rule conjI [OF a conjI [OF b c]])
next
  case False
  let ?ini = "initial_slashes_of x"
  let ?cs = "norm_comps ?ini (str_split (CHR ''/'') x) []"
  note kept = norm_comps_clean [of ?ini x]
  have up: "0 < ?ini \<longrightarrow> ''..'' \<notin> set ?cs"
  proof
    assume "0 < ?ini"
    then show "''..'' \<notin> set ?cs"
      by (rule norm_comps_no_dotdot) simp
  qed
  from kept have "\<forall>c\<in>set ?cs. c \<noteq> []" by blast
  then have join_empty: "str_join sep ?cs = [] \<longleftrightarrow> ?cs = []"
    by (rule str_join_empty)
  have shape: "normpath x =
          (if ?ini = 0 \<and> ?cs = [] then ''.''
           else concat (replicate ?ini sep) @ str_join sep ?cs)"
    unfolding normpath_unfolded [OF False]
    by (simp only: append_is_Nil_conv slashes_empty join_empty)
  show ?thesis
    by (rule exI [of _ ?cs]) (rule conjI [OF shape conjI [OF kept up]])
qed


section \<open>The resolver\<close>

lemma initial_slashes_le: "initial_slashes_of x \<le> 2"
  by (simp add: initial_slashes_of_def)

lemma get_file_path_unfolded:
  "get_file_path e t =
     (if path_exists e (normpath (path_join (document_root e)
                                   (if t = ''/'' then ''index.html'' else drop 1 t)))
      then Some (normpath (path_join (document_root e)
                             (if t = ''/'' then ''index.html'' else drop 1 t)))
      else None)"
  unfolding get_file_path_def Let_def DEFAULT_FILE_def by (rule refl)

lemma resolve_agrees:
  "startswith t sep \<Longrightarrow> get_file_path e t = resolve_as_specified e t"
  unfolding get_file_path_def resolve_as_specified_def strip_leading_separator_def
    Let_def DEFAULT_FILE_def
  by (simp only: if_True)

lemma path_join_plain:
  "a \<noteq> [] \<Longrightarrow> \<not> endswith a sep \<Longrightarrow> \<not> startswith b sep \<Longrightarrow> path_join a b = a @ ''/'' @ b"
  by (simp add: path_join_def sep_def)

lemma get_file_path_normal:
  assumes "get_file_path e t = Some p"
  shows "path_exists e p"
    and "\<exists>n cs. p = (if n = 0 \<and> cs = [] then ''.''
                     else concat (replicate n sep) @ str_join sep cs) \<and>
            n \<le> 2 \<and>
            (\<forall>c\<in>set cs. c \<noteq> [] \<and> c \<noteq> ''.'' \<and> CHR ''/'' \<notin> set c) \<and>
            (0 < n \<longrightarrow> ''..'' \<notin> set cs)"
proof -
  let ?x = "path_join (document_root e) (if t = ''/'' then ''index.html'' else drop 1 t)"
  from assms have p: "p = normpath ?x" and ex: "path_exists e (normpath ?x)"
    unfolding get_file_path_unfolded by (simp_all split: if_splits)
  from ex p show "path_exists e p" by simp
  from normpath_shape [of ?x] obtain cs where
    a: "normpath ?x = (if initial_slashes_of ?x = 0 \<and> cs = [] then ''.''
           else concat (replicate (initial_slashes_of ?x) sep) @ str_join sep cs)" and
    b: "\<forall>c\<in>set cs. c \<noteq> [] \<and> c \<noteq> ''.'' \<and> CHR ''/'' \<notin> set c" and
    c: "0 < initial_slashes_of ?x \<longrightarrow> ''..'' \<notin> set cs"
    by (elim exE conjE)
  show "\<exists>n cs. p = (if n = 0 \<and> cs = [] then ''.''
                     else concat (replicate n sep) @ str_join sep cs) \<and>
            n \<le> 2 \<and>
            (\<forall>c\<in>set cs. c \<noteq> [] \<and> c \<noteq> ''.'' \<and> CHR ''/'' \<notin> set c) \<and>
            (0 < n \<longrightarrow> ''..'' \<notin> set cs)"
    unfolding p
    by (rule exI [of _ "initial_slashes_of ?x"], rule exI [of _ cs])
       (rule conjI [OF a conjI [OF initial_slashes_le conjI [OF b c]]])
qed


lemma example_resolve_index: "get_file_path example_env ''/'' = Some ''/srv/www/index.html''"
  by (simp add: get_file_path_def path_exists_def path_defs example_defs DEFAULT_FILE_def)


text \<open>
  Claim C1, as the specification states it, has the resolver strip one leading path
  separator from every target other than \<open>/\<close>. The code drops the first character
  whatever it is: for the target \<open>a.txt\<close>, which has no leading separator, the
  specified resolver looks for \<open>/srv/www/a.txt\<close>, which exists, while
  \<open>get_file_path\<close> looks for \<open>/srv/www/.txt\<close> and returns nothing.
\<close>

theorem C1_first_character_mismatch_counterexample:
  "\<not> startswith ''a.txt'' sep \<and>
   path_exists example_env ''/srv/www/a.txt'' \<and>
   resolve_as_specified example_env ''a.txt'' = Some ''/srv/www/a.txt'' \<and>
   get_file_path example_env ''a.txt'' = None"
  by (simp add: get_file_path_def resolve_as_specified_def strip_leading_separator_def
      path_exists_def path_defs example_defs DEFAULT_FILE_def)


text \<open>
  Claim C1, amended. For every raw target other than \<open>/\<close> the resolver drops the first
  character of the target (the leading separator, when the target starts with one, and
  then it agrees with the resolver as specified), joins the rest onto the document root,
  normalizes the result and returns it if and only if it exists. What it returns is
  normalized: at most two leading separators followed by segments joined by single
  separators, no segment empty or \<open>.\<close>, and no segment \<open>..\<close> in an absolute path. For
  the target \<open>/\<close> the name \<open>index.html\<close> is joined instead, so with a document root
  \<open>R\<close> that is not empty and does not end in a separator, \<open>/\<close> resolves to
  \<open>R/index.html\<close> normalized, when that exists.
\<close>

theorem C1_resolver:
  "get_file_path e t =
     (if path_exists e (normpath (path_join (document_root e)
                                   (if t = ''/'' then ''index.html'' else drop 1 t)))
      then Some (normpath (path_join (document_root e)
                             (if t = ''/'' then ''index.html'' else drop 1 t)))
      else None) \<and>
   (startswith t sep \<longrightarrow> get_file_path e t = resolve_as_specified e t) \<and>
   (\<forall>p. get_file_path e t = Some p \<longrightarrow>
      path_exists e p \<and>
      (\<exists>n cs. p = (if n = 0 \<and> cs = [] then ''.''
                    else concat (replicate n sep) @ str_join sep cs) \<and>
           n \<le> 2 \<and>
           (\<forall>c\<in>set cs. c \<noteq> [] \<and> c \<noteq> ''.'' \<and> CHR ''/'' \<notin> set c) \<and>
           (0 < n \<longrightarrow> ''..'' \<notin> set cs))) \<and>
   (document_root e \<noteq> [] \<and> \<not> endswith (document_root e) sep \<longrightarrow>
      get_file_path e ''/'' =
        (if path_exists e (normpath (document_root e @ ''/index.html''))
         then Some (normpath (document_root e @ ''/index.html'')) else None))"
proof (intro conjI allI impI)
  show "get_file_path e t =
     (if path_exists e (normpath (path_join (document_root e)
                                   (if t = ''/'' then ''index.html'' else drop 1 t)))
      then Some (normpath (path_join (document_root e)
                             (if t = ''/'' then ''index.html'' else drop 1 t)))
      else None)"
    by (rule get_file_path_unfolded)
next
  assume "startswith t sep"
  then show "get_file_path e t = resolve_as_specified e t"
    by (rule resolve_agrees)
next
  fix p
  assume "get_file_path e t = Some p"
  then show "path_exists e p"
    by (rule get_file_path_normal(1))
next
  fix p
  assume "get_file_path e t = Some p"
  then show "\<exists>n cs. p = (if n = 0 \<and> cs = [] then ''.''
                    else concat (replicate n sep) @ str_join sep cs) \<and>
           n \<le> 2 \<and>
           (\<forall>c\<in>set cs. c \<noteq> [] \<and> c \<noteq> ''.'' \<and> CHR ''/'' \<notin> set c) \<and>
           (0 < n \<longrightarrow> ''..'' \<notin> set cs)"
    by (rule get_file_path_normal(2))
next
  assume root: "document_root e \<noteq> [] \<and> \<not> endswith (document_root e) sep"
  have "\<not> startswith ''index.html'' sep"
    by (simp add: startswith_def sep_def)
  with root have "path_join (document_root e) ''index.html'' = document_root e @ ''/'' @ ''index.html''"
    by (intro path_join_plain) simp_all
  then show "get_file_path e ''/'' =
        (if path_exists e (normpath (document_root e @ ''/index.html''))
         then Some (normpath (document_root e @ ''/index.html'')) else None)"
    by (simp add: get_file_path_unfolded)
qed


theorem C1_resolver_witness:
  "startswith ''/a.txt'' sep \<and>
   get_file_path example_env ''/a.txt'' = Some ''/srv/www/a.txt'' \<and>
   resolve_as_specified example_env ''/a.txt'' = Some ''/srv/www/a.txt'' \<and>
   path_exists example_env ''/srv/www/a.txt'' \<and>
   document_root example_env \<noteq> [] \<and> \<not> endswith (document_root example_env) sep \<and>
   get_file_path example_env ''/'' = Some ''/srv/www/index.html''"
proof -
  have starts: "startswith ''/a.txt'' sep"
    by (simp add: startswith_def sep_def)
  have nonempty: "document_root example_env \<noteq> []"
    by (simp add: example_defs)
  have open_end: "\<not> endswith (document_root example_env) sep"
    by (simp add: endswith_def sep_def example_defs)
  note main = C1_resolver [of example_env "''/a.txt''"]
  note agrees = main [THEN conjunct2, THEN conjunct1, THEN mp, OF starts]
  note found = main [THEN conjunct2, THEN conjunct2, THEN conjunct1, THEN spec, THEN mp,
      OF example_resolve_a, THEN conjunct1]
  from agrees example_resolve_a
  have as_specified: "resolve_as_specified example_env ''/a.txt'' = Some ''/srv/www/a.txt''"
    by (simp only:)
  show ?thesis
    by (rule conjI [OF starts conjI [OF example_resolve_a conjI [OF as_specified
          conjI [OF found conjI [OF nonempty conjI [OF open_end example_resolve_index]]]]]])
qed

end
